theory Spec2Isabelle
  imports Complex_Main
begin

section \<open>The miter prover of abcProve.c\<close>

text \<open>
  This theory embeds \<^verbatim>\<open>Abc_NtkMiterProve\<close> and \<^verbatim>\<open>Abc_NtkMiterFraig\<close> of
  \<^verbatim>\<open>src/base/abci/abcProve.c\<close>. The decision procedures the controller calls
  (SAT, rewriting, refactoring, balancing, the fraig manager, BDD collapsing) are not
  part of that file; they are parameters of the model, collected in a record of
  functions. Every call the controller makes to one of them is logged, with its
  arguments and its result, so that statements about which engine runs, in which order
  and with which limit can be made.

  Conventions of the embedding:
  \<^item> C flags (\<^verbatim>\<open>int\<close> fields tested for being nonzero) are \<open>bool\<close>;
  \<^item> \<^verbatim>\<open>int\<close> and \<^verbatim>\<open>sint64\<close> values are \<open>int\<close>; the places where the C
    program has no defined result (a conversion from floating point that does not fit,
    the decrement of the smallest \<^verbatim>\<open>int\<close>, a sum of \<^verbatim>\<open>sint64\<close> totals that does not
    fit, a division by zero, a read past the end of an array, the read of a variable
    that was never assigned, a failed assertion) are results \<open>Inl e\<close> of the model;
  \<^item> the growth factors are \<^verbatim>\<open>float\<close> fields and \<^verbatim>\<open>pow\<close> works on doubles. What
    \<^verbatim>\<open>start * pow(multi, nIter)\<close> evaluates to depends on \<^verbatim>\<open>pow\<close> of the C library and
    on the floating-point arithmetic of the machine, which are not part of the file
    either: the value of this expression is one more parameter of the model;
  \<^item> of the diagnostic output under \<^verbatim>\<open>fVerbose\<close> the model keeps the two conversions
    to \<^verbatim>\<open>int\<close> of lines 95-96, which can be undefined; what is printed, and the clock,
    are not modelled.
\<close>

subsection \<open>Data\<close>

datatype error =
    AssertFailed
  | UninitRead
  | CastOutOfRange
  | SignedOverflow
  | DivByZero
  | OutOfBounds

text \<open>
  A \<^verbatim>\<open>float\<close> or \<^verbatim>\<open>double\<close> value: a finite number, an infinity, or not a number.
\<close>

datatype fpval =
    Finite real
  | PlusInfinity
  | MinusInfinity
  | NaN

text \<open>
  Modelled from the spec: the declaration of \<^verbatim>\<open>Prove_Params_t\<close> is in \<^verbatim>\<open>fraig.h\<close>, which
  is not among the sources. The fields are the ones \<^verbatim>\<open>Abc_NtkMiterProve\<close> reads and
  writes, under the names it uses; they are the ProofParameters of the specification
  (iteration cap, enablement flags, a starting limit and a growth factor per stage, the
  last-resort SAT limit, the two global ceilings with zero meaning unbounded, the two
  running totals, the BDD node ceiling and reorder flag).
\<close>

record Prove_Params =
  fUseFraiging :: bool
  fUseRewriting :: bool
  fUseBdds :: bool
  fVerbose :: bool
  nItersMax :: int
  nMiteringLimitStart :: int
  nMiteringLimitMulti :: fpval
  nRewritingLimitStart :: int
  nRewritingLimitMulti :: fpval
  nFraigingLimitStart :: int
  nFraigingLimitMulti :: fpval
  nMiteringLimitLast :: int
  nBddSizeLimit :: int
  fBddReorder :: bool
  nTotalBacktrackLimit :: int
  nTotalInspectLimit :: int
  nTotalBacktracksMade :: int
  nTotalInspectsMade :: int

text \<open>
  Modelled from the spec: \<^verbatim>\<open>Abc_Ntk_t\<close> is declared in \<^verbatim>\<open>abc.h\<close>, which is not among the
  sources. The prover touches one field of it, \<^verbatim>\<open>pModel\<close> (\<^verbatim>\<open>NULL\<close> or an array with one
  \<^verbatim>\<open>int\<close> per combinational input); everything else of the network is the component
  \<open>graph\<close>, of a type the engines choose.
\<close>

record 'a Abc_Ntk =
  pModel :: "int list option"
  graph :: 'a

text \<open>
  The fields of \<^verbatim>\<open>Fraig_Params_t\<close> that \<^verbatim>\<open>Abc_NtkMiterFraig\<close> sets after
  \<^verbatim>\<open>Fraig_ParamsSetDefault\<close>. (\<open>fVerboseFraig\<close> is the field \<^verbatim>\<open>fVerbose\<close> of that
  struct.)
\<close>

record Fraig_Params =
  nPatsRand :: int
  nPatsDyna :: int
  nBTLimit :: int
  nSeconds :: int
  fTryProve :: bool
  fDoSparse :: bool
  fVerboseFraig :: bool
  nInspLimit :: int

text \<open>
  The functions of ABC the prover calls. A function that works on the network in place
  returns the network as it is afterwards. \<^verbatim>\<open>Abc_NtkMiterSat\<close> returns its verdict, the
  network (a model may have been attached) and the numbers of conflicts and inspects it
  would store through its last two arguments. \<open>PoDriverIsLogicZero\<close> is the test
  \<^verbatim>\<open>Abc_ObjFanin0(Abc_NtkPo(pNtk,0))->pData == Cudd_ReadLogicZero(pNtk->pManFunc)\<close>.
  The last field is the arithmetic: \<open>mul_pow start multi nIter\<close> is the double that the
  C expression \<^verbatim>\<open>start * pow(multi, nIter)\<close> evaluates to, for an \<^verbatim>\<open>int\<close> \<open>start\<close>, a
  \<^verbatim>\<open>float\<close> \<open>multi\<close> and an \<^verbatim>\<open>int\<close> \<open>nIter\<close>, with whatever rounding \<^verbatim>\<open>pow\<close> and the
  multiplication have there.
\<close>

record ('a, 'm) engines =
  Abc_NtkIsStrash :: "'a \<Rightarrow> bool"
  Abc_NtkPoNum :: "'a \<Rightarrow> nat"
  Abc_NtkNodeNum :: "'a \<Rightarrow> nat"
  Abc_NtkCiNum :: "'a \<Rightarrow> nat"
  Abc_NtkMiterIsConstant :: "'a \<Rightarrow> int"
  PoDriverIsLogicZero :: "'a \<Rightarrow> bool"
  Abc_NtkMiterSat :: "'a Abc_Ntk \<Rightarrow> int \<Rightarrow> int \<Rightarrow> int \<times> 'a Abc_Ntk \<times> int \<times> int"
  Abc_NtkRewrite :: "'a Abc_Ntk \<Rightarrow> 'a Abc_Ntk"
  Abc_NtkRefactor :: "'a Abc_Ntk \<Rightarrow> 'a Abc_Ntk"
  Abc_NtkBalance :: "'a Abc_Ntk \<Rightarrow> 'a Abc_Ntk"
  Abc_NtkCollapse :: "'a Abc_Ntk \<Rightarrow> int \<Rightarrow> bool \<Rightarrow> 'a Abc_Ntk option"
  Abc_NtkToFraig :: "'a Abc_Ntk \<Rightarrow> Fraig_Params \<Rightarrow> 'm"
  Fraig_ManProveMiter :: "'m \<Rightarrow> 'm"
  Fraig_ManCheckMiter :: "'m \<Rightarrow> int"
  Abc_NtkFromFraig :: "'m \<Rightarrow> 'a Abc_Ntk \<Rightarrow> 'a Abc_Ntk"
  Fraig_ManReadModel :: "'m \<Rightarrow> int list"
  Fraig_ManReadSatFails :: "'m \<Rightarrow> int"
  Fraig_ManReadConflicts :: "'m \<Rightarrow> int"
  Fraig_ManReadInspects :: "'m \<Rightarrow> int"
  mul_pow :: "int \<Rightarrow> fpval \<Rightarrow> int \<Rightarrow> fpval"

text \<open>
  The log of calls. \<open>MiterSat l i s r c n\<close>: \<^verbatim>\<open>Abc_NtkMiterSat\<close> with conflict limit \<open>l\<close>
  and inspect limit \<open>i\<close>; \<open>s\<close> tells whether the addresses of \<^verbatim>\<open>nSatConfs\<close> and
  \<^verbatim>\<open>nSatInspects\<close> were passed (rather than \<^verbatim>\<open>NULL\<close>); it returned \<open>r\<close> and used \<open>c\<close>
  conflicts and \<open>n\<close> inspects. \<open>MiterFraig b i r c n\<close>: \<^verbatim>\<open>Abc_NtkMiterFraig\<close> with
  backtrack limit \<open>b\<close> and inspect limit \<open>i\<close>, which stored \<open>r\<close>, \<open>c\<close>, \<open>n\<close>.
  \<open>Collapse l o ok\<close>: \<^verbatim>\<open>Abc_NtkCollapse\<close> with node limit \<open>l\<close> and reorder flag \<open>o\<close>,
  which returned a network (\<open>ok\<close>) or \<^verbatim>\<open>NULL\<close>.
\<close>

datatype call =
    MiterSat int int bool int int int
  | Rewrite
  | Refactor
  | Balance
  | MiterIsConstant int
  | MiterFraig int int int int int
  | Collapse int bool bool
  | NtkDelete

text \<open>The variables of \<^verbatim>\<open>Abc_NtkMiterProve\<close>; \<open>RetValue = None\<close> until it is assigned.\<close>

record 'a state =
  pNtk :: "'a Abc_Ntk"
  pParams :: Prove_Params
  RetValue :: "int option"
  calls :: "call list"

text \<open>How an iteration of the \<^verbatim>\<open>for\<close> loop ends.\<close>

datatype 'a exit =
    Continue "'a state"
  | Break "'a state"
  | Return int "'a state"

subsection \<open>Limits\<close>

definition INT_MIN :: int where
  "INT_MIN = - (2 ^ 31)"

definition INT_MAX :: int where
  "INT_MAX = 2 ^ 31 - 1"

definition trunc0 :: "real \<Rightarrow> int" where
  "trunc0 x = (if x < 0 then \<lceil>x\<rceil> else \<lfloor>x\<rfloor>)"

text \<open>
  The conversions \<^verbatim>\<open>(int)x\<close> and \<^verbatim>\<open>(sint64)x\<close> of a double: the fractional part is
  discarded, and there is no defined result when the double is not finite or the
  integral part is not a value of the integer type.
\<close>

definition cast_int :: "fpval \<Rightarrow> error + int" where
  "cast_int d =
     (case d of
        Finite x \<Rightarrow>
          if INT_MIN \<le> trunc0 x \<and> trunc0 x \<le> INT_MAX then Inr (trunc0 x) else Inl CastOutOfRange
      | _ \<Rightarrow> Inl CastOutOfRange)"

definition cast_sint64 :: "fpval \<Rightarrow> error + int" where
  "cast_sint64 d =
     (case d of
        Finite x \<Rightarrow>
          if - (2 ^ 63) \<le> trunc0 x \<and> trunc0 x < 2 ^ 63 then Inr (trunc0 x) else Inl CastOutOfRange
      | _ \<Rightarrow> Inl CastOutOfRange)"

text \<open>
  \<^verbatim>\<open>pParams->nTotalInspectLimit? pParams->nTotalInspectLimit - pParams->nTotalInspectsMade : 0\<close>
\<close>

definition inspect_limit :: "Prove_Params \<Rightarrow> int" where
  "inspect_limit p =
     (if nTotalInspectLimit p \<noteq> 0 then nTotalInspectLimit p - nTotalInspectsMade p else 0)"

text \<open>The values of the type \<^verbatim>\<open>sint64\<close>.\<close>

definition fits_sint64 :: "int \<Rightarrow> bool" where
  "fits_sint64 x \<longleftrightarrow> - (2 ^ 63) \<le> x \<and> x < 2 ^ 63"

text \<open>The parameters with \<open>nSatConfs\<close> and \<open>nSatInspects\<close> added to the totals.\<close>

definition plus_totals :: "Prove_Params \<Rightarrow> int \<Rightarrow> int \<Rightarrow> Prove_Params" where
  "plus_totals p nSatConfs nSatInspects =
     p\<lparr>nTotalBacktracksMade := nTotalBacktracksMade p + nSatConfs,
       nTotalInspectsMade := nTotalInspectsMade p + nSatInspects\<rparr>"

text \<open>
  Lines 109-110 and 158-159: add to the number of backtracks and inspects. The sums are
  sums of \<^verbatim>\<open>sint64\<close> values, with no defined result when they do not fit that type.
\<close>

definition add_totals :: "Prove_Params \<Rightarrow> int \<Rightarrow> int \<Rightarrow> error + Prove_Params" where
  "add_totals p nSatConfs nSatInspects =
     (if \<not> fits_sint64 (nTotalBacktracksMade p + nSatConfs) then Inl SignedOverflow
      else if \<not> fits_sint64 (nTotalInspectsMade p + nSatInspects) then Inl SignedOverflow
      else Inr (plus_totals p nSatConfs nSatInspects))"

text \<open>Lines 112-113 and 161-162: the global resource limit is reached.\<close>

definition limit_reached :: "Prove_Params \<Rightarrow> bool" where
  "limit_reached p \<longleftrightarrow>
     (nTotalBacktrackLimit p \<noteq> 0 \<and> nTotalBacktracksMade p \<ge> nTotalBacktrackLimit p) \<or>
     (nTotalInspectLimit p \<noteq> 0 \<and> nTotalInspectsMade p \<ge> nTotalInspectLimit p)"

definition log_call :: "call list \<Rightarrow> 'a state \<Rightarrow> 'a state" where
  "log_call cs st = st\<lparr>calls := calls st @ cs\<rparr>"

subsection \<open>\<^verbatim>\<open>Abc_NtkMiterFraig\<close>\<close>

text \<open>
  Returns the new network, the value stored in \<^verbatim>\<open>*pRetValue\<close>, and the numbers stored
  in \<^verbatim>\<open>*pNumFails\<close>, \<^verbatim>\<open>*pNumConfs\<close>, \<^verbatim>\<open>*pNumInspects\<close>.
\<close>

definition Abc_NtkMiterFraig ::
  "('a, 'm) engines \<Rightarrow> 'a Abc_Ntk \<Rightarrow> int \<Rightarrow> int \<Rightarrow> error + ('a Abc_Ntk \<times> int \<times> int \<times> int \<times> int)" where
  "Abc_NtkMiterFraig E ntk nBTLimit' nInspLimit' =
     (if Abc_NtkNodeNum E (graph ntk) + Abc_NtkCiNum E (graph ntk) = 0 then Inl DivByZero
      else
        let nWords1 = (32 :: int);
            nWords2 = (2 ^ 27) div int (Abc_NtkNodeNum E (graph ntk) + Abc_NtkCiNum E (graph ntk));
            nWordsMin = min nWords1 nWords2;
            Params = \<lparr>nPatsRand = nWordsMin * 32, nPatsDyna = nWordsMin * 32,
                      nBTLimit = nBTLimit', nSeconds = - 1, fTryProve = False,
                      fDoSparse = True, fVerboseFraig = False, nInspLimit = nInspLimit'\<rparr>;
            pMan = Fraig_ManProveMiter E (Abc_NtkToFraig E ntk Params);
            RetValue' = Fraig_ManCheckMiter E pMan;
            pNtkNew = Abc_NtkFromFraig E pMan ntk
        in if RetValue' = 0 \<and> length (Fraig_ManReadModel E pMan) < Abc_NtkCiNum E (graph pNtkNew)
           then Inl OutOfBounds
           else Inr (if RetValue' = 0
                     then pNtkNew\<lparr>pModel :=
                            Some (take (Abc_NtkCiNum E (graph pNtkNew)) (Fraig_ManReadModel E pMan))\<rparr>
                     else pNtkNew,
                     RetValue', Fraig_ManReadSatFails E pMan,
                     Fraig_ManReadConflicts E pMan, Fraig_ManReadInspects E pMan))"

subsection \<open>The rewriting loop (lines 125-142)\<close>

text \<open>\<^verbatim>\<open>RetValue = Abc_NtkMiterIsConstant(pNtk)\<close>\<close>

definition check_constant :: "('a, 'm) engines \<Rightarrow> 'a state \<Rightarrow> int \<times> 'a state" where
  "check_constant E st =
     (let r = Abc_NtkMiterIsConstant E (graph (pNtk st))
      in (r, log_call [MiterIsConstant r] (st\<lparr>RetValue := Some r\<rparr>)))"

text \<open>\<^verbatim>\<open>Abc_NtkRewrite( pNtk, 0, 0, 0 )\<close> and \<^verbatim>\<open>Abc_NtkRefactor( pNtk, 10, 16, 0, 0, 0, 0 )\<close>\<close>

definition do_rewrite :: "('a, 'm) engines \<Rightarrow> 'a state \<Rightarrow> 'a state" where
  "do_rewrite E st = log_call [Rewrite] (st\<lparr>pNtk := Abc_NtkRewrite E (pNtk st)\<rparr>)"

definition do_refactor :: "('a, 'm) engines \<Rightarrow> 'a state \<Rightarrow> 'a state" where
  "do_refactor E st = log_call [Refactor] (st\<lparr>pNtk := Abc_NtkRefactor E (pNtk st)\<rparr>)"

text \<open>\<^verbatim>\<open>pNtk = Abc_NtkBalance( pNtkTemp = pNtk, 0, 0, 0 );  Abc_NtkDelete( pNtkTemp )\<close>\<close>

definition do_balance :: "('a, 'm) engines \<Rightarrow> 'a state \<Rightarrow> 'a state" where
  "do_balance E st = log_call [Balance, NtkDelete] (st\<lparr>pNtk := Abc_NtkBalance E (pNtk st)\<rparr>)"

text \<open>
  The body of \<^verbatim>\<open>while ( 1 )\<close>, with the value of \<^verbatim>\<open>Counter\<close> at its start. Each
  \<^verbatim>\<open>--Counter\<close> is undefined when \<^verbatim>\<open>Counter\<close> is the smallest \<^verbatim>\<open>int\<close>.
\<close>

function rewriting_while :: "('a, 'm) engines \<Rightarrow> int \<Rightarrow> 'a state \<Rightarrow> error + 'a state" where
  "rewriting_while E Counter st =
     (case check_constant E (do_rewrite E st) of (r1, st1) \<Rightarrow>
        if r1 \<ge> 0 then Inr st1
        else if Counter \<le> INT_MIN then Inl SignedOverflow
        else if Counter - 1 = 0 then Inr st1
        else
          (case check_constant E (do_refactor E st1) of (r2, st2) \<Rightarrow>
             if r2 \<ge> 0 then Inr st2
             else if Counter - 1 \<le> INT_MIN then Inl SignedOverflow
             else if Counter - 2 = 0 then Inr st2
             else
               (case check_constant E (do_balance E st2) of (r3, st3) \<Rightarrow>
                  if r3 \<ge> 0 then Inr st3
                  else if Counter - 2 \<le> INT_MIN then Inl SignedOverflow
                  else if Counter - 3 = 0 then Inr st3
                  else rewriting_while E (Counter - 3) st3)))"
  by pat_completeness auto
termination
  by (relation "measure (\<lambda>(E, Counter, st). nat (if 1 \<le> Counter then Counter else Counter + 2 ^ 31))")
     (auto simp: INT_MIN_def)

declare rewriting_while.simps [simp del]

subsection \<open>The stages of an iteration\<close>

text \<open>Lines 100-118: try brute-force SAT.\<close>

definition sat_stage :: "('a, 'm) engines \<Rightarrow> int \<Rightarrow> 'a state \<Rightarrow> error + 'a exit" where
  "sat_stage E nIter st =
     (let nInspectLimit = inspect_limit (pParams st)
      in case cast_sint64 (mul_pow E (nMiteringLimitStart (pParams st))
                             (nMiteringLimitMulti (pParams st)) nIter) of
           Inl e \<Rightarrow> Inl e
         | Inr nConfLimit \<Rightarrow>
             (case Abc_NtkMiterSat E (pNtk st) nConfLimit nInspectLimit of
                (r, ntk', nSatConfs, nSatInspects) \<Rightarrow>
                  let st1 = log_call [MiterSat nConfLimit nInspectLimit True r nSatConfs nSatInspects]
                              (st\<lparr>pNtk := ntk', RetValue := Some r\<rparr>)
                  in if r \<ge> 0 then Inr (Break st1)
                     else
                       (case add_totals (pParams st1) nSatConfs nSatInspects of
                          Inl e \<Rightarrow> Inl e
                        | Inr p' \<Rightarrow>
                            if limit_reached p' then Inr (Return (- 1) (st1\<lparr>pParams := p'\<rparr>))
                            else Inr (Continue (st1\<lparr>pParams := p'\<rparr>)))))"

text \<open>Lines 123-143: try rewriting.\<close>

definition rewriting_stage :: "('a, 'm) engines \<Rightarrow> int \<Rightarrow> 'a state \<Rightarrow> error + 'a state" where
  "rewriting_stage E nIter st =
     (case cast_int (mul_pow E (nRewritingLimitStart (pParams st))
                       (nRewritingLimitMulti (pParams st)) nIter) of
        Inl e \<Rightarrow> Inl e
      | Inr Counter \<Rightarrow> rewriting_while E Counter st)"

text \<open>Lines 148-167: try FRAIGing.\<close>

definition fraiging_stage :: "('a, 'm) engines \<Rightarrow> int \<Rightarrow> 'a state \<Rightarrow> error + 'a exit" where
  "fraiging_stage E nIter st =
     (let nInspectLimit = inspect_limit (pParams st)
      in case cast_int (mul_pow E (nFraigingLimitStart (pParams st))
                          (nFraigingLimitMulti (pParams st)) nIter) of
           Inl e \<Rightarrow> Inl e
         | Inr nBTL \<Rightarrow>
             (case Abc_NtkMiterFraig E (pNtk st) nBTL nInspectLimit of
                Inl e \<Rightarrow> Inl e
              | Inr (ntk', r, nSatFails, nSatConfs, nSatInspects) \<Rightarrow>
                  let st1 = log_call [MiterFraig nBTL nInspectLimit r nSatConfs nSatInspects, NtkDelete]
                              (st\<lparr>pNtk := ntk', RetValue := Some r\<rparr>)
                  in if r \<ge> 0 then Inr (Break st1)
                     else
                       (case add_totals (pParams st1) nSatConfs nSatInspects of
                          Inl e \<Rightarrow> Inl e
                        | Inr p' \<Rightarrow>
                            if limit_reached p' then Inr (Return (- 1) (st1\<lparr>pParams := p'\<rparr>))
                            else Inr (Continue (st1\<lparr>pParams := p'\<rparr>)))))"

text \<open>
  Lines 92-98: under \<^verbatim>\<open>fVerbose\<close> the line that is printed converts the limits of the
  SAT and of the fraiging stage to \<^verbatim>\<open>int\<close>.
\<close>

definition verbose_line :: "('a, 'm) engines \<Rightarrow> int \<Rightarrow> 'a state \<Rightarrow> error + unit" where
  "verbose_line E nIter st =
     (if fVerbose (pParams st) then
        (case cast_int (mul_pow E (nMiteringLimitStart (pParams st))
                          (nMiteringLimitMulti (pParams st)) nIter) of
           Inl e \<Rightarrow> Inl e
         | Inr Confs \<Rightarrow>
             (case cast_int (mul_pow E (nFraigingLimitStart (pParams st))
                               (nFraigingLimitMulti (pParams st)) nIter) of
                Inl e \<Rightarrow> Inl e
              | Inr FraigBTL \<Rightarrow> Inr ()))
      else Inr ())"

text \<open>Lines 100-168: the three stages of an iteration.\<close>

definition iter_stages :: "('a, 'm) engines \<Rightarrow> int \<Rightarrow> 'a state \<Rightarrow> error + 'a exit" where
  "iter_stages E nIter st =
     (case sat_stage E nIter st of
        Inl e \<Rightarrow> Inl e
      | Inr (Break st') \<Rightarrow> Inr (Break st')
      | Inr (Return v st') \<Rightarrow> Inr (Return v st')
      | Inr (Continue st1) \<Rightarrow>
          (case (if fUseRewriting (pParams st1) then rewriting_stage E nIter st1 else Inr st1) of
             Inl e \<Rightarrow> Inl e
           | Inr st2 \<Rightarrow>
               if fUseFraiging (pParams st2) then fraiging_stage E nIter st2
               else Inr (Continue st2)))"

text \<open>Lines 91-169: the body of the \<^verbatim>\<open>for\<close> loop.\<close>

definition prove_iter :: "('a, 'm) engines \<Rightarrow> int \<Rightarrow> 'a state \<Rightarrow> error + 'a exit" where
  "prove_iter E nIter st =
     (case verbose_line E nIter st of
        Inl e \<Rightarrow> Inl e
      | Inr u \<Rightarrow> iter_stages E nIter st)"

subsection \<open>\<^verbatim>\<open>Abc_NtkMiterProve\<close>\<close>

text \<open>
  Lines 90-170: the \<^verbatim>\<open>for\<close> loop from the value \<open>nIter\<close> of its counter on. It ends with
  \<open>Return\<close> when the body returns from the function, with \<open>Break\<close> when the body leaves
  the loop, and with \<open>Continue\<close> when the loop condition fails.
\<close>

function prove_for :: "('a, 'm) engines \<Rightarrow> int \<Rightarrow> 'a state \<Rightarrow> error + 'a exit" where
  "prove_for E nIter st =
     (if nIter < nItersMax (pParams st) then
        (case prove_iter E nIter st of
           Inl e \<Rightarrow> Inl e
         | Inr (Continue st') \<Rightarrow> prove_for E (nIter + 1) st'
         | Inr (Break st') \<Rightarrow> Inr (Break st')
         | Inr (Return v st') \<Rightarrow> Inr (Return v st'))
      else Inr (Continue st))"
  by pat_completeness auto

text \<open>Lines 180-189: the attempt with BDDs.\<close>

definition bdd_stage :: "('a, 'm) engines \<Rightarrow> 'a state \<Rightarrow> 'a state" where
  "bdd_stage E st =
     (case Abc_NtkCollapse E (pNtk st) (nBddSizeLimit (pParams st)) (fBddReorder (pParams st)) of
        Some ntk' \<Rightarrow>
          log_call [Collapse (nBddSizeLimit (pParams st)) (fBddReorder (pParams st)) True, NtkDelete]
            (st\<lparr>pNtk := ntk',
                RetValue := Some (if Abc_NtkNodeNum E (graph ntk') = 1 \<and> PoDriverIsLogicZero E (graph ntk')
                                  then 1 else 0)\<rparr>)
      | None \<Rightarrow>
          log_call [Collapse (nBddSizeLimit (pParams st)) (fBddReorder (pParams st)) False] st)"

text \<open>Lines 199-202: the last SAT attempt, which passes \<^verbatim>\<open>NULL\<close> for both counters.\<close>

definition last_sat :: "('a, 'm) engines \<Rightarrow> 'a state \<Rightarrow> 'a state" where
  "last_sat E st =
     (let nInspectLimit = inspect_limit (pParams st)
      in case Abc_NtkMiterSat E (pNtk st) (nMiteringLimitLast (pParams st)) nInspectLimit of
           (r, ntk', nSatConfs, nSatInspects) \<Rightarrow>
             log_call [MiterSat (nMiteringLimitLast (pParams st)) nInspectLimit False r nSatConfs nSatInspects]
               (st\<lparr>pNtk := ntk', RetValue := Some r\<rparr>))"

text \<open>Lines 206-210: assign the model if it was proved by rewriting.\<close>

definition assign_model :: "('a, 'm) engines \<Rightarrow> 'a state \<Rightarrow> 'a state" where
  "assign_model E st =
     (if RetValue st = Some 0 \<and> pModel (pNtk st) = None
      then st\<lparr>pNtk := (pNtk st)\<lparr>pModel := Some (replicate (Abc_NtkCiNum E (graph (pNtk st))) 0)\<rparr>\<rparr>
      else st)"

text \<open>
  Lines 172-213: what follows the loop. The first thing it does is to read \<^verbatim>\<open>RetValue\<close>.
\<close>

definition prove_tail :: "('a, 'm) engines \<Rightarrow> 'a state \<Rightarrow> error + (int \<times> 'a state)" where
  "prove_tail E st =
     (case RetValue st of
        None \<Rightarrow> Inl UninitRead
      | Some r \<Rightarrow>
          (let st1 = (if r < 0 \<and> fUseBdds (pParams st) then bdd_stage E st else st)
           in (case RetValue st1 of
                 None \<Rightarrow> Inl UninitRead
               | Some r1 \<Rightarrow>
                   (let st2 = (if r1 < 0 then last_sat E st1 else st1)
                    in (case RetValue st2 of
                          None \<Rightarrow> Inl UninitRead
                        | Some r2 \<Rightarrow> Inr (r2, assign_model E st2))))))"

text \<open>
  Lines 55-213. The result is the value returned and the final values of the variables:
  \<open>pNtk\<close> is the network stored in \<^verbatim>\<open>*ppNtk\<close>, \<open>pParams\<close> the parameters as the call
  leaves them.
\<close>

definition Abc_NtkMiterProve ::
  "('a, 'm) engines \<Rightarrow> 'a Abc_Ntk \<Rightarrow> Prove_Params \<Rightarrow> error + (int \<times> 'a state)" where
  "Abc_NtkMiterProve E ntk p =
     (if \<not> Abc_NtkIsStrash E (graph ntk) then Inl AssertFailed
      else if Abc_NtkPoNum E (graph ntk) \<noteq> 1 then Inl AssertFailed
      else if \<not> fUseRewriting p \<and> \<not> fUseFraiging p then
        (case Abc_NtkMiterSat E ntk (nMiteringLimitLast p) 0 of
           (r, ntk', nSatConfs, nSatInspects) \<Rightarrow>
             Inr (r, \<lparr>pNtk = ntk', pParams = p, RetValue = Some r,
                      calls = [MiterSat (nMiteringLimitLast p) 0 False r nSatConfs nSatInspects]\<rparr>))
      else
        (case prove_for E 0 \<lparr>pNtk = ntk, pParams = p, RetValue = None, calls = []\<rparr> of
           Inl e \<Rightarrow> Inl e
         | Inr (Return v st) \<Rightarrow> Inr (v, st)
         | Inr (Break st) \<Rightarrow> prove_tail E st
         | Inr (Continue st) \<Rightarrow> prove_tail E st))"

text \<open>The parameters without the running totals, and the state an iteration ends in.\<close>

definition settings :: "Prove_Params \<Rightarrow> Prove_Params" where
  "settings p = p\<lparr>nTotalBacktracksMade := 0, nTotalInspectsMade := 0\<rparr>"

definition exit_state :: "'a exit \<Rightarrow> 'a state" where
  "exit_state x = (case x of Continue st \<Rightarrow> st | Break st \<Rightarrow> st | Return v st \<Rightarrow> st)"

subsection \<open>The rewriting loop, step by step\<close>

text \<open>
  The Local Optimization Driver in the words of the specification: up to \<open>b\<close>
  applications of rewrite, refactor, balance in rotation (\<open>k\<close> is the position in the
  rotation), a check for a constant output after each, and an early end when the check
  finds one. It is compared with \<open>rewriting_while\<close> below.
\<close>

definition transform :: "('a, 'm) engines \<Rightarrow> nat \<Rightarrow> 'a state \<Rightarrow> 'a state" where
  "transform E k st =
     (if k mod 3 = 0 then do_rewrite E st
      else if k mod 3 = 1 then do_refactor E st
      else do_balance E st)"

fun optimization_driver :: "('a, 'm) engines \<Rightarrow> nat \<Rightarrow> nat \<Rightarrow> 'a state \<Rightarrow> 'a state" where
  "optimization_driver E 0 k st = st"
| "optimization_driver E (Suc b) k st =
     (case check_constant E (transform E k st) of (r, st') \<Rightarrow>
        if r \<ge> 0 then st' else optimization_driver E b (Suc k) st')"

text \<open>The calls that the transformation at position \<open>k\<close> logs.\<close>

definition transform_calls :: "nat \<Rightarrow> call list" where
  "transform_calls k =
     (if k mod 3 = 0 then [Rewrite] else if k mod 3 = 1 then [Refactor] else [Balance, NtkDelete])"

text \<open>
  The calls of a run of the driver whose checks returned \<open>rs\<close>, from position \<open>k\<close> of
  the rotation on.
\<close>

fun rotation_log :: "nat \<Rightarrow> int list \<Rightarrow> call list" where
  "rotation_log k [] = []"
| "rotation_log k (r # rs) = transform_calls k @ MiterIsConstant r # rotation_log (Suc k) rs"

text \<open>
  The network after \<open>m\<close> transformations of the rotation, from position \<open>k\<close> on: the
  functions of ABC themselves, applied one after the other.
\<close>

definition rot_engine :: "('a, 'm) engines \<Rightarrow> nat \<Rightarrow> 'a Abc_Ntk \<Rightarrow> 'a Abc_Ntk" where
  "rot_engine E k =
     (if k mod 3 = 0 then Abc_NtkRewrite E
      else if k mod 3 = 1 then Abc_NtkRefactor E
      else Abc_NtkBalance E)"

fun apply_rot :: "('a, 'm) engines \<Rightarrow> nat \<Rightarrow> nat \<Rightarrow> 'a Abc_Ntk \<Rightarrow> 'a Abc_Ntk" where
  "apply_rot E k 0 ntk = ntk"
| "apply_rot E k (Suc m) ntk = apply_rot E (Suc k) m (rot_engine E k ntk)"

subsection \<open>The iterations of a call\<close>


text \<open>
  The calls of the code after the loop: the BDD attempt, and the SAT attempt without
  counters.
\<close>

definition is_fallback :: "call \<Rightarrow> bool" where
  "is_fallback c = (case c of Collapse l r ok \<Rightarrow> True | MiterSat l i s r c n \<Rightarrow> \<not> s | _ \<Rightarrow> False)"

subsection \<open>The book-keeping of the totals, read off the log\<close>

text \<open>
  The calls whose conflicts and inspects the code adds to the running totals: the SAT
  calls that were given the two counters and the fraiging calls, when they return a
  negative value (lines 105-110 and 154-159).
\<close>

definition accounted :: "call \<Rightarrow> bool" where
  "accounted c =
     (case c of MiterSat l i s r cn n \<Rightarrow> s \<and> r < 0 | MiterFraig b i r cn n \<Rightarrow> r < 0 | _ \<Rightarrow> False)"

text \<open>The parameters after the totals have been updated for a call.\<close>

definition charge :: "Prove_Params \<Rightarrow> call \<Rightarrow> Prove_Params" where
  "charge p c =
     (case c of
        MiterSat l i s r cn n \<Rightarrow> if s \<and> r < 0 then plus_totals p cn n else p
      | MiterFraig b i r cn n \<Rightarrow> if r < 0 then plus_totals p cn n else p
      | _ \<Rightarrow> p)"

text \<open>
  The first accounted call of a log that brings the totals to a nonzero global limit, as
  the calls that follow it in the log; the totals start from those of \<open>p\<close>.
\<close>

fun first_hit :: "Prove_Params \<Rightarrow> call list \<Rightarrow> call list option" where
  "first_hit p [] = None"
| "first_hit p (c # cs) =
     (if accounted c \<and> limit_reached (charge p c) then Some cs else first_hit (charge p c) cs)"

text \<open>
  The totals of the state are the ones of \<open>p\<close> updated for the log, and no call of the
  log brought them to a limit (\<open>booked\<close>), or one did and only the deletion of the
  old network follows it (\<open>aborted\<close>).
\<close>

definition booked :: "Prove_Params \<Rightarrow> 'a state \<Rightarrow> bool" where
  "booked p st \<longleftrightarrow> pParams st = foldl charge p (calls st) \<and> first_hit p (calls st) = None"

definition aborted :: "Prove_Params \<Rightarrow> 'a state \<Rightarrow> bool" where
  "aborted p st \<longleftrightarrow> pParams st = foldl charge p (calls st) \<and>
     (\<exists>r. first_hit p (calls st) = Some r \<and> set r \<subseteq> {NtkDelete})"

text \<open>
  The calls after which the code looks at no limit: a SAT call of the loop or a
  fraiging call that returned a verdict (lines 105-106 and 154-155 leave the loop), and
  a SAT call without counters (lines 83 and 201). \<open>returned c\<close> is the value such a call
  returned.
\<close>

definition unbilled :: "call \<Rightarrow> bool" where
  "unbilled c =
     (case c of MiterSat l i s r cn n \<Rightarrow> \<not> s \<or> 0 \<le> r | MiterFraig b i r cn n \<Rightarrow> 0 \<le> r | _ \<Rightarrow> False)"

definition returned :: "call \<Rightarrow> int" where
  "returned c = (case c of MiterSat l i s r cn n \<Rightarrow> r | MiterFraig b i r cn n \<Rightarrow> r | _ \<Rightarrow> 0)"

text \<open>
  Every such call of the log is followed by no call of an engine (only by the deletion of
  a network that was replaced), and \<open>v\<close> is the value it returned.
\<close>

fun settled :: "int \<Rightarrow> call list \<Rightarrow> bool" where
  "settled v [] = True"
| "settled v (c # cs) = ((unbilled c \<longrightarrow> set cs \<subseteq> {NtkDelete} \<and> v = returned c) \<and> settled v cs)"

text \<open>
  No addition to the totals that the log accounts for has left the type \<^verbatim>\<open>sint64\<close>; the
  totals start from those of \<open>p\<close>.
\<close>

fun in_range :: "Prove_Params \<Rightarrow> call list \<Rightarrow> bool" where
  "in_range p [] = True"
| "in_range p (c # cs) =
     ((accounted c \<longrightarrow> fits_sint64 (nTotalBacktracksMade (charge p c)) \<and>
                     fits_sint64 (nTotalInspectsMade (charge p c))) \<and>
      in_range (charge p c) cs)"

text \<open>
  The variables at the head of the loop (\<open>tidy\<close>): every SAT and fraiging call so far
  has been accounted for. The variables when the loop is left by \<^verbatim>\<open>break\<close> (\<open>ended\<close>): the
  last call of an engine returned the verdict in \<^verbatim>\<open>RetValue\<close>.
\<close>

definition tidy :: "Prove_Params \<Rightarrow> 'a state \<Rightarrow> bool" where
  "tidy p st \<longleftrightarrow> pParams st = foldl charge p (calls st) \<and> in_range p (calls st) \<and>
     (\<forall>c \<in> set (calls st). \<not> unbilled c)"

definition ended :: "Prove_Params \<Rightarrow> 'a state \<Rightarrow> bool" where
  "ended p st \<longleftrightarrow> pParams st = foldl charge p (calls st) \<and> in_range p (calls st) \<and>
     (\<exists>r. RetValue st = Some r \<and> 0 \<le> r \<and> settled r (calls st))"

subsection \<open>The code after the loop, up to the model\<close>

text \<open>
  Lines 172-203: the variables when control reaches line 205, for the variables \<open>st\<close>
  at line 172. (With \<^verbatim>\<open>RetValue\<close> unassigned at line 172 there is no defined behaviour;
  \<open>prove_tail\<close> has the error, and the state is left as it is here.)
\<close>

definition before_model :: "('a, 'm) engines \<Rightarrow> 'a state \<Rightarrow> 'a state" where
  "before_model E st =
     (case RetValue st of
        None \<Rightarrow> st
      | Some r \<Rightarrow>
          (let st1 = (if r < 0 \<and> fUseBdds (pParams st) then bdd_stage E st else st)
           in (case RetValue st1 of
                 None \<Rightarrow> st1
               | Some r1 \<Rightarrow> if r1 < 0 then last_sat E st1 else st1)))"

subsection \<open>A small instance\<close>

text \<open>
  Engines for the concrete runs below. The graph of a network is the number of its
  nodes, over two inputs; the network with no node is the constant-zero miter. Rewriting
  and refactoring remove a node each, balancing changes nothing. SAT and the fraig
  manager decide the network with no node only; a SAT call uses 5 conflicts and 7
  inspects, a fraig call 3 and 4. Collapsing succeeds, without changing the graph, when
  the graph is within the node limit. The arithmetic is the exact product for a finite
  factor and an iteration count from 0 on; the runs below use it only where the doubles
  of the machine are that product too (small integers and halves).
\<close>

definition toy :: "(nat, nat) engines" where
  "toy = \<lparr>Abc_NtkIsStrash = (\<lambda>g. True),
          Abc_NtkPoNum = (\<lambda>g. 1),
          Abc_NtkNodeNum = (\<lambda>g. g),
          Abc_NtkCiNum = (\<lambda>g. 2),
          Abc_NtkMiterIsConstant = (\<lambda>g. if g = 0 then 1 else - 1),
          PoDriverIsLogicZero = (\<lambda>g. g = 0),
          Abc_NtkMiterSat = (\<lambda>n l i. (if graph n = 0 then 1 else - 1, n, 5, 7)),
          Abc_NtkRewrite = (\<lambda>n. n\<lparr>graph := graph n - 1\<rparr>),
          Abc_NtkRefactor = (\<lambda>n. n\<lparr>graph := graph n - 1\<rparr>),
          Abc_NtkBalance = (\<lambda>n. n),
          Abc_NtkCollapse = (\<lambda>n l r. if int (graph n) \<le> l then Some n else None),
          Abc_NtkToFraig = (\<lambda>n P. graph n),
          Fraig_ManProveMiter = (\<lambda>m. m),
          Fraig_ManCheckMiter = (\<lambda>m. if m = 0 then 1 else - 1),
          Abc_NtkFromFraig = (\<lambda>m n. n),
          Fraig_ManReadModel = (\<lambda>m. [0, 0]),
          Fraig_ManReadSatFails = (\<lambda>m. 0),
          Fraig_ManReadConflicts = (\<lambda>m. 3),
          Fraig_ManReadInspects = (\<lambda>m. 4),
          mul_pow = (\<lambda>start multi nIter.
                       case multi of Finite x \<Rightarrow> Finite (real_of_int start * x ^ nat nIter)
                                   | _ \<Rightarrow> NaN)\<rparr>"

definition toy_ntk :: "nat \<Rightarrow> nat Abc_Ntk" where
  "toy_ntk g = \<lparr>pModel = None, graph = g\<rparr>"

definition toy_params :: Prove_Params where
  "toy_params =
     \<lparr>fUseFraiging = True, fUseRewriting = True, fUseBdds = False, fVerbose = False,
      nItersMax = 1,
      nMiteringLimitStart = 100, nMiteringLimitMulti = Finite 2,
      nRewritingLimitStart = 3, nRewritingLimitMulti = Finite 1,
      nFraigingLimitStart = 20, nFraigingLimitMulti = Finite 8,
      nMiteringLimitLast = 1000000, nBddSizeLimit = 10, fBddReorder = False,
      nTotalBacktrackLimit = 0, nTotalInspectLimit = 0,
      nTotalBacktracksMade = 0, nTotalInspectsMade = 0\<rparr>"

text \<open>The same with rewriting and fraiging switched off.\<close>

definition toy_params_sat_only :: Prove_Params where
  "toy_params_sat_only = toy_params\<lparr>fUseFraiging := False, fUseRewriting := False\<rparr>"

text \<open>The same with the BDD attempt switched on.\<close>

definition toy_params_bdd :: Prove_Params where
  "toy_params_bdd = toy_params\<lparr>fUseBdds := True\<rparr>"

text \<open>
  Engines whose SAT call answers 0 and attaches the model \<open>[1, 0]\<close>, and engines whose
  balancing adds a node.
\<close>

definition toy_sat_model :: "(nat, nat) engines" where
  "toy_sat_model = toy\<lparr>Abc_NtkMiterSat := (\<lambda>n l i. (0, n\<lparr>pModel := Some [1, 0]\<rparr>, 5, 7))\<rparr>"

definition toy_balance :: "(nat, nat) engines" where
  "toy_balance = toy\<lparr>Abc_NtkBalance := (\<lambda>n. n\<lparr>graph := Suc (graph n)\<rparr>)\<rparr>"

text \<open>The parameters with a global ceiling of 1 backtrack, and of 10 inspects.\<close>

definition toy_params_confs :: Prove_Params where
  "toy_params_confs = toy_params\<lparr>nTotalBacktrackLimit := 1\<rparr>"

definition toy_params_insps :: Prove_Params where
  "toy_params_insps = toy_params\<lparr>nTotalInspectLimit := 10\<rparr>"

section \<open>Properties\<close>

subsection \<open>The loop leaves the settings alone, and terminates\<close>

lemma settings_plus_totals [simp]: "settings (plus_totals p c n) = settings p"
  by (simp add: settings_def plus_totals_def)

lemma add_totals_Inr: "add_totals p c n = Inr p' \<Longrightarrow> p' = plus_totals p c n"
  by (auto simp: add_totals_def split: if_splits)

lemma add_totals_no_uninit: "add_totals p c n \<noteq> Inl UninitRead"
  by (auto simp: add_totals_def)

lemma prove_iter_Inr: "prove_iter E nIter st = Inr x \<Longrightarrow> iter_stages E nIter st = Inr x"
  by (auto simp: prove_iter_def split: sum.splits)

lemma nItersMax_settings: "settings p' = settings p \<Longrightarrow> nItersMax p' = nItersMax p"
  by (metis settings_def Prove_Params.select_convs(5) Prove_Params.surjective Prove_Params.update_convs(17,18))

lemma exit_state_simps [simp]:
  "exit_state (Continue st) = st"
  "exit_state (Break st) = st"
  "exit_state (Return v st) = st"
  by (simp_all add: exit_state_def)

lemma log_call_simps [simp]:
  "pParams (log_call cs st) = pParams st"
  "pNtk (log_call cs st) = pNtk st"
  "RetValue (log_call cs st) = RetValue st"
  "calls (log_call cs st) = calls st @ cs"
  by (simp_all add: log_call_def)

lemma pParams_do [simp]:
  "pParams (do_rewrite E st) = pParams st"
  "pParams (do_refactor E st) = pParams st"
  "pParams (do_balance E st) = pParams st"
  by (simp_all add: do_rewrite_def do_refactor_def do_balance_def)

lemma sat_stage_settings:
  "sat_stage E nIter st = Inr x \<Longrightarrow> settings (pParams (exit_state x)) = settings (pParams st)"
  by (auto simp: sat_stage_def Let_def split: sum.splits prod.splits if_splits
      dest!: add_totals_Inr)

lemma fraiging_stage_settings:
  "fraiging_stage E nIter st = Inr x \<Longrightarrow> settings (pParams (exit_state x)) = settings (pParams st)"
  by (auto simp: fraiging_stage_def Let_def split: sum.splits prod.splits if_splits
      dest!: add_totals_Inr)

lemma rewriting_while_pParams:
  "rewriting_while E Counter st = Inr st' \<Longrightarrow> pParams st' = pParams st"
proof (induction E Counter st rule: rewriting_while.induct)
  case (1 E Counter st)
  show ?case
    using "1.prems" "1.IH"
    apply (subst (asm) rewriting_while.simps)
    by (auto simp: check_constant_def Let_def split: prod.splits if_splits)
qed

lemma rewriting_stage_pParams:
  "rewriting_stage E nIter st = Inr st' \<Longrightarrow> pParams st' = pParams st"
  by (auto simp: rewriting_stage_def split: sum.splits dest: rewriting_while_pParams)

lemma iter_stages_settings:
  assumes "iter_stages E nIter st = Inr x"
  shows "settings (pParams (exit_state x)) = settings (pParams st)"
proof (cases "sat_stage E nIter st")
  case (Inl e)
  with assms show ?thesis by (simp add: iter_stages_def)
next
  case (Inr y)
  note sat = sat_stage_settings [OF Inr]
  show ?thesis
  proof (cases y)
    case (Continue st1)
    with Inr assms obtain st2 where
      rw: "(if fUseRewriting (pParams st1) then rewriting_stage E nIter st1 else Inr st1) = Inr st2"
      and fr: "(if fUseFraiging (pParams st2) then fraiging_stage E nIter st2 else Inr (Continue st2)) = Inr x"
      by (auto simp: iter_stages_def split: sum.splits)
    from rw have p2: "pParams st2 = pParams st1"
      by (auto split: if_splits dest: rewriting_stage_pParams)
    from fr have "settings (pParams (exit_state x)) = settings (pParams st2)"
      by (auto split: if_splits dest: fraiging_stage_settings)
    with p2 sat Continue show ?thesis by simp
  next
    case (Break st')
    with Inr assms sat show ?thesis by (auto simp: iter_stages_def)
  next
    case (Return v st')
    with Inr assms sat show ?thesis by (auto simp: iter_stages_def)
  qed
qed

lemma prove_iter_settings:
  "prove_iter E nIter st = Inr x \<Longrightarrow> settings (pParams (exit_state x)) = settings (pParams st)"
  by (rule iter_stages_settings) (rule prove_iter_Inr)

termination prove_for
proof (relation "measure (\<lambda>(E, nIter, st). nat (nItersMax (pParams st) - nIter))")
  show "wf (measure (\<lambda>(E, nIter, st). nat (nItersMax (pParams st) - nIter)))"
    by simp
next
  fix E :: "('a, 'm) engines" and nIter :: int and st st' :: "'a state" and x
  assume less: "nIter < nItersMax (pParams st)"
    and iter: "prove_iter E nIter st = Inr x" and x: "x = Continue st'"
  from prove_iter_settings [OF iter] x have "settings (pParams st') = settings (pParams st)"
    by simp
  then have "nItersMax (pParams st') = nItersMax (pParams st)"
    by (rule nItersMax_settings)
  with less show "((E, nIter + 1, st'), (E, nIter, st))
      \<in> measure (\<lambda>(E, nIter, st). nat (nItersMax (pParams st) - nIter))"
    by simp
qed

declare prove_for.simps [simp del]

subsection \<open>\<^verbatim>\<open>RetValue\<close> is assigned by every iteration\<close>

lemma sat_stage_RetValue:
  "sat_stage E nIter st = Inr x \<Longrightarrow> RetValue (exit_state x) \<noteq> None"
  by (auto simp: sat_stage_def Let_def split: sum.splits prod.splits if_splits)

lemma fraiging_stage_RetValue:
  "fraiging_stage E nIter st = Inr x \<Longrightarrow> RetValue (exit_state x) \<noteq> None"
  by (auto simp: fraiging_stage_def Let_def split: sum.splits prod.splits if_splits)

lemma rewriting_while_RetValue:
  "rewriting_while E Counter st = Inr st' \<Longrightarrow> RetValue st' \<noteq> None"
proof (induction E Counter st rule: rewriting_while.induct)
  case (1 E Counter st)
  show ?case
    using "1.prems" "1.IH"
    apply (subst (asm) rewriting_while.simps)
    by (auto simp: check_constant_def Let_def split: prod.splits if_splits)
qed

lemma iter_stages_RetValue:
  assumes "iter_stages E nIter st = Inr x"
  shows "RetValue (exit_state x) \<noteq> None"
proof (cases "sat_stage E nIter st")
  case (Inl e)
  with assms show ?thesis by (simp add: iter_stages_def)
next
  case (Inr y)
  note sat = sat_stage_RetValue [OF Inr]
  show ?thesis
  proof (cases y)
    case (Continue st1)
    with Inr assms obtain st2 where
      rw: "(if fUseRewriting (pParams st1) then rewriting_stage E nIter st1 else Inr st1) = Inr st2"
      and fr: "(if fUseFraiging (pParams st2) then fraiging_stage E nIter st2 else Inr (Continue st2)) = Inr x"
      by (auto simp: iter_stages_def split: sum.splits)
    from rw sat Continue have "RetValue st2 \<noteq> None"
      by (auto simp: rewriting_stage_def split: if_splits sum.splits dest: rewriting_while_RetValue)
    with fr show ?thesis
      by (auto split: if_splits dest: fraiging_stage_RetValue)
  next
    case (Break st')
    with Inr assms sat show ?thesis by (auto simp: iter_stages_def)
  next
    case (Return v st')
    with Inr assms sat show ?thesis by (auto simp: iter_stages_def)
  qed
qed

lemma prove_iter_RetValue:
  "prove_iter E nIter st = Inr x \<Longrightarrow> RetValue (exit_state x) \<noteq> None"
  by (rule iter_stages_RetValue) (rule prove_iter_Inr)

lemma prove_for_exhausted:
  "nItersMax (pParams st) \<le> nIter \<Longrightarrow> prove_for E nIter st = Inr (Continue st)"
  by (simp add: prove_for.simps)

lemma prove_for_RetValue:
  "prove_for E nIter st = Inr x \<Longrightarrow> nIter < nItersMax (pParams st) \<or> RetValue st \<noteq> None \<Longrightarrow>
   RetValue (exit_state x) \<noteq> None"
proof (induction E nIter st rule: prove_for.induct)
  case (1 E nIter st)
  show ?case
  proof (cases "nIter < nItersMax (pParams st)")
    case False
    with "1.prems" show ?thesis by (auto simp: prove_for.simps)
  next
    case True
    with "1.prems"(1) obtain y where y: "prove_iter E nIter st = Inr y"
      by (auto simp: prove_for.simps [of E nIter st] split: sum.splits)
    note rv = prove_iter_RetValue [OF y]
    show ?thesis
    proof (cases y)
      case (Continue st')
      with True y "1.prems"(1) have "prove_for E (nIter + 1) st' = Inr x"
        by (simp add: prove_for.simps [of E nIter st])
      moreover from rv Continue have "RetValue st' \<noteq> None" by simp
      ultimately show ?thesis using "1.IH" [OF True y Continue] by blast
    next
      case (Break st')
      with True y "1.prems"(1) rv show ?thesis by (auto simp: prove_for.simps [of E nIter st])
    next
      case (Return v st')
      with True y "1.prems"(1) rv show ?thesis by (auto simp: prove_for.simps [of E nIter st])
    qed
  qed
qed

lemma RetValue_bdd_stage:
  "RetValue (bdd_stage E st) =
     (case Abc_NtkCollapse E (pNtk st) (nBddSizeLimit (pParams st)) (fBddReorder (pParams st)) of
        Some ntk' \<Rightarrow> Some (if Abc_NtkNodeNum E (graph ntk') = 1 \<and> PoDriverIsLogicZero E (graph ntk')
                           then 1 else 0)
      | None \<Rightarrow> RetValue st)"
  by (simp add: bdd_stage_def split: option.splits)

lemma RetValue_last_sat:
  "RetValue (last_sat E st) =
     Some (fst (Abc_NtkMiterSat E (pNtk st) (nMiteringLimitLast (pParams st)) (inspect_limit (pParams st))))"
  by (simp add: last_sat_def Let_def split: prod.splits)

lemma prove_tail_None: "RetValue st = None \<Longrightarrow> prove_tail E st = Inl UninitRead"
  by (simp add: prove_tail_def)

lemma prove_tail_Some:
  assumes "RetValue st \<noteq> None"
  shows "\<exists>r. prove_tail E st = Inr r"
  using assms
  by (auto simp: prove_tail_def Let_def RetValue_bdd_stage RetValue_last_sat split: option.splits)

lemma cast_no_uninit: "cast_int d \<noteq> Inl UninitRead" "cast_sint64 d \<noteq> Inl UninitRead"
  by (auto simp: cast_int_def cast_sint64_def split: fpval.splits)

lemma sat_stage_no_uninit: "sat_stage E nIter st \<noteq> Inl UninitRead"
  using cast_no_uninit(2) add_totals_no_uninit
  by (auto simp: sat_stage_def Let_def split: sum.splits prod.splits if_splits)

lemma Abc_NtkMiterFraig_no_uninit: "Abc_NtkMiterFraig E ntk b i \<noteq> Inl UninitRead"
  by (auto simp: Abc_NtkMiterFraig_def Let_def split: if_splits)

lemma fraiging_stage_no_uninit: "fraiging_stage E nIter st \<noteq> Inl UninitRead"
  using Abc_NtkMiterFraig_no_uninit [of E] cast_no_uninit(1) add_totals_no_uninit
  by (auto simp: fraiging_stage_def Let_def split: sum.splits prod.splits if_splits)

lemma rewriting_while_no_uninit: "rewriting_while E Counter st \<noteq> Inl UninitRead"
proof (induction E Counter st rule: rewriting_while.induct)
  case (1 E Counter st)
  show ?case
    using "1.IH"
    apply (subst rewriting_while.simps)
    by (auto simp: check_constant_def Let_def split: prod.splits if_splits)
qed

lemma rewriting_stage_no_uninit: "rewriting_stage E nIter st \<noteq> Inl UninitRead"
  using rewriting_while_no_uninit [of E] cast_no_uninit(1)
  by (auto simp: rewriting_stage_def split: sum.splits if_splits)

lemma iter_stages_no_uninit: "iter_stages E nIter st \<noteq> Inl UninitRead"
  using sat_stage_no_uninit [of E nIter st] rewriting_stage_no_uninit [of E nIter]
    fraiging_stage_no_uninit [of E nIter]
  by (auto simp: iter_stages_def split: sum.splits exit.splits if_splits)

lemma verbose_line_no_uninit: "verbose_line E nIter st \<noteq> Inl UninitRead"
  using cast_no_uninit(1)
  by (auto simp: verbose_line_def split: sum.splits if_splits)

lemma prove_iter_no_uninit: "prove_iter E nIter st \<noteq> Inl UninitRead"
  using iter_stages_no_uninit [of E nIter st] verbose_line_no_uninit [of E nIter st]
  by (auto simp: prove_iter_def split: sum.splits)

lemma prove_for_no_uninit: "prove_for E nIter st \<noteq> Inl UninitRead"
proof (induction E nIter st rule: prove_for.induct)
  case (1 E nIter st)
  show ?case
    using "1.IH" prove_iter_no_uninit [of E nIter st]
    apply (subst prove_for.simps)
    by (auto split: sum.splits exit.splits)
qed

lemmas unfold_all = Abc_NtkMiterProve_def prove_for.simps prove_iter_def verbose_line_def
  iter_stages_def sat_stage_def
  rewriting_stage_def rewriting_while.simps fraiging_stage_def Abc_NtkMiterFraig_def
  prove_tail_def bdd_stage_def last_sat_def assign_model_def check_constant_def
  do_rewrite_def do_refactor_def do_balance_def log_call_def cast_int_def cast_sint64_def
  trunc0_def inspect_limit_def add_totals_def plus_totals_def fits_sint64_def limit_reached_def
  INT_MIN_def INT_MAX_def Let_def

lemmas unfold_toy = toy_def toy_ntk_def toy_params_def toy_params_sat_only_def toy_params_bdd_def
  toy_sat_model_def toy_balance_def toy_params_confs_def toy_params_insps_def

lemma replicate_2: "replicate 2 x = [x, x]"
  by (simp add: numeral_2_eq_2)

subsection \<open>The minimal-effort mode\<close>

text \<open>
  C9: when neither rewriting nor fraiging is enabled, the call makes one call of
  \<^verbatim>\<open>Abc_NtkMiterSat\<close>, with the limit \<^verbatim>\<open>nMiteringLimitLast\<close>, the inspect limit 0 and no
  counters, and returns what it returned. The log holds this call and nothing else: no
  iteration, no BDD attempt, no replacement of the network. The network handed back is
  the one the SAT call worked on, as that call left it (no model is synthesized), and
  the parameters are unchanged.
\<close>

theorem minimal_effort_mode:
  assumes "Abc_NtkIsStrash E (graph ntk)" and "Abc_NtkPoNum E (graph ntk) = 1"
    and "\<not> fUseRewriting p" and "\<not> fUseFraiging p"
    and "Abc_NtkMiterSat E ntk (nMiteringLimitLast p) 0 = (r, ntk', c, n)"
  shows "Abc_NtkMiterProve E ntk p =
    Inr (r, \<lparr>pNtk = ntk', pParams = p, RetValue = Some r,
             calls = [MiterSat (nMiteringLimitLast p) 0 False r c n]\<rparr>)"
  using assms by (simp add: Abc_NtkMiterProve_def)

theorem minimal_effort_mode_witness:
  "Abc_NtkIsStrash toy (graph (toy_ntk 7)) \<and> Abc_NtkPoNum toy (graph (toy_ntk 7)) = 1 \<and>
   \<not> fUseRewriting toy_params_sat_only \<and> \<not> fUseFraiging toy_params_sat_only \<and>
   Abc_NtkMiterSat toy (toy_ntk 7) (nMiteringLimitLast toy_params_sat_only) 0 = (- 1, toy_ntk 7, 5, 7) \<and>
   Abc_NtkMiterProve toy (toy_ntk 7) toy_params_sat_only =
     Inr (- 1, \<lparr>pNtk = toy_ntk 7, pParams = toy_params_sat_only, RetValue = Some (- 1),
                calls = [MiterSat 1000000 0 False (- 1) 5 7]\<rparr>)"
  using minimal_effort_mode [of toy "toy_ntk 7" toy_params_sat_only "- 1" "toy_ntk 7" 5 7]
  by (simp add: unfold_toy)

subsection \<open>An iteration cap below one\<close>

text \<open>
  C10: with rewriting or fraiging enabled and \<^verbatim>\<open>nItersMax\<close> zero or negative, the body of
  the loop never runs, and the test \<^verbatim>\<open>RetValue < 0\<close> of line 173 reads a variable that was
  never assigned: the call has no defined result. With \<^verbatim>\<open>nItersMax\<close> at least 1 this
  read never happens, since the first SAT call assigns \<^verbatim>\<open>RetValue\<close>.
\<close>

theorem iteration_cap_uninitialised:
  assumes "Abc_NtkIsStrash E (graph ntk)" and "Abc_NtkPoNum E (graph ntk) = 1"
    and "fUseRewriting p \<or> fUseFraiging p"
  shows "(nItersMax p \<le> 0 \<longrightarrow> Abc_NtkMiterProve E ntk p = Inl UninitRead) \<and>
         (1 \<le> nItersMax p \<longrightarrow> Abc_NtkMiterProve E ntk p \<noteq> Inl UninitRead)"
proof (intro conjI impI)
  let ?st = "\<lparr>pNtk = ntk, pParams = p, RetValue = None, calls = []\<rparr>"
  assume "nItersMax p \<le> 0"
  then have "prove_for E 0 ?st = Inr (Continue ?st)"
    by (simp add: prove_for_exhausted)
  with assms show "Abc_NtkMiterProve E ntk p = Inl UninitRead"
    by (auto simp: Abc_NtkMiterProve_def prove_tail_None)
next
  let ?st = "\<lparr>pNtk = ntk, pParams = p, RetValue = None, calls = []\<rparr>"
  assume cap: "1 \<le> nItersMax p"
  show "Abc_NtkMiterProve E ntk p \<noteq> Inl UninitRead"
  proof (cases "prove_for E 0 ?st")
    case (Inl e)
    with prove_for_no_uninit [of E 0 ?st] assms show ?thesis
      by (auto simp: Abc_NtkMiterProve_def)
  next
    case (Inr x)
    from prove_for_RetValue [OF Inr] cap have "RetValue (exit_state x) \<noteq> None" by simp
    from prove_tail_Some [OF this] obtain r where "prove_tail E (exit_state x) = Inr r" ..
    with Inr assms show ?thesis
      by (cases x) (auto simp: Abc_NtkMiterProve_def)
  qed
qed

theorem iteration_cap_uninitialised_witness:
  "Abc_NtkIsStrash toy (graph (toy_ntk 7)) \<and> Abc_NtkPoNum toy (graph (toy_ntk 7)) = 1 \<and>
   (fUseRewriting (toy_params\<lparr>nItersMax := 0\<rparr>) \<or> fUseFraiging (toy_params\<lparr>nItersMax := 0\<rparr>)) \<and>
   nItersMax (toy_params\<lparr>nItersMax := 0\<rparr>) \<le> 0 \<and>
   Abc_NtkMiterProve toy (toy_ntk 7) (toy_params\<lparr>nItersMax := 0\<rparr>) = Inl UninitRead \<and>
   1 \<le> nItersMax toy_params \<and>
   Abc_NtkMiterProve toy (toy_ntk 7) toy_params \<noteq> Inl UninitRead"
  using iteration_cap_uninitialised [of toy "toy_ntk 7" "toy_params\<lparr>nItersMax := 0\<rparr>"]
    iteration_cap_uninitialised [of toy "toy_ntk 7" toy_params]
  by (simp add: unfold_toy)

subsection \<open>The attempt with BDDs\<close>



text \<open>
  C3, as stated, fails: a BDD that was built and is not the single constant-zero node
  does not leave the question open. \<^verbatim>\<open>RetValue\<close> is assigned the value of a C
  comparison, 1 or 0, so the call answers 0 (SAT), makes no last SAT attempt, and hands
  back the all-zero model. In the run below the network has three nodes; the loop
  leaves one, the collapse succeeds, and its single node is not the constant zero.
\<close>

theorem bdd_built_counterexample:
  "\<not> PoDriverIsLogicZero toy 1 \<and>
   Abc_NtkMiterProve toy (toy_ntk 3) toy_params_bdd =
     Inr (0, \<lparr>pNtk = \<lparr>pModel = Some [0, 0], graph = 1\<rparr>,
              pParams = toy_params_bdd\<lparr>nTotalBacktracksMade := 8, nTotalInspectsMade := 11\<rparr>,
              RetValue = Some 0,
              calls = [MiterSat 100 0 True (- 1) 5 7,
                       Rewrite, MiterIsConstant (- 1), Refactor, MiterIsConstant (- 1),
                       Balance, NtkDelete, MiterIsConstant (- 1),
                       MiterFraig 20 0 (- 1) 3 4, NtkDelete,
                       Collapse 10 False True, NtkDelete]\<rparr>)"
  by (simp add: unfold_all unfold_toy replicate_2)

text \<open>
  C3, amended: when the BDD attempt runs and \<^verbatim>\<open>Abc_NtkCollapse\<close> returns a network, the
  call answers 1 (UNSAT) exactly when that network has one node and the driver of its
  output is the constant zero, and 0 (SAT) otherwise. In both cases the collapse is the
  last call of an engine: there is no last SAT attempt. With the answer 0, a network
  without a model gets the all-zero model.
\<close>

theorem bdd_built:
  assumes "RetValue st = Some r" and "r < 0" and "fUseBdds (pParams st)"
    and "Abc_NtkCollapse E (pNtk st) (nBddSizeLimit (pParams st)) (fBddReorder (pParams st)) = Some ntk'"
  shows "prove_tail E st =
           (if Abc_NtkNodeNum E (graph ntk') = 1 \<and> PoDriverIsLogicZero E (graph ntk')
            then Inr (1, st\<lparr>pNtk := ntk', RetValue := Some 1,
                            calls := calls st @
                              [Collapse (nBddSizeLimit (pParams st)) (fBddReorder (pParams st)) True, NtkDelete]\<rparr>)
            else Inr (0, st\<lparr>pNtk := (if pModel ntk' = None
                                     then ntk'\<lparr>pModel := Some (replicate (Abc_NtkCiNum E (graph ntk')) 0)\<rparr>
                                     else ntk'),
                            RetValue := Some 0,
                            calls := calls st @
                              [Collapse (nBddSizeLimit (pParams st)) (fBddReorder (pParams st)) True, NtkDelete]\<rparr>))"
  using assms
  by (simp add: prove_tail_def bdd_stage_def log_call_def assign_model_def Let_def)

theorem bdd_built_witness:
  "RetValue \<lparr>pNtk = toy_ntk 1, pParams = toy_params_bdd, RetValue = Some (- 1), calls = []\<rparr> = Some (- 1) \<and>
   (- 1 :: int) < 0 \<and> fUseBdds toy_params_bdd \<and>
   Abc_NtkCollapse toy (toy_ntk 1) 10 False = Some (toy_ntk 1) \<and>
   prove_tail toy \<lparr>pNtk = toy_ntk 1, pParams = toy_params_bdd, RetValue = Some (- 1), calls = []\<rparr> =
     Inr (0, \<lparr>pNtk = \<lparr>pModel = Some [0, 0], graph = 1\<rparr>, pParams = toy_params_bdd,
              RetValue = Some 0, calls = [Collapse 10 False True, NtkDelete]\<rparr>)"
  using bdd_built [of "\<lparr>pNtk = toy_ntk 1, pParams = toy_params_bdd, RetValue = Some (- 1), calls = []\<rparr>"
      "- 1" toy "toy_ntk 1"]
  by (simp add: unfold_toy replicate_2)

subsection \<open>The model of a SAT answer\<close>

lemma sat_stage_Return: "sat_stage E nIter st = Inr (Return v st') \<Longrightarrow> v = - 1"
  by (auto simp: sat_stage_def Let_def split: sum.splits prod.splits if_splits)

lemma fraiging_stage_Return: "fraiging_stage E nIter st = Inr (Return v st') \<Longrightarrow> v = - 1"
  by (auto simp: fraiging_stage_def Let_def split: sum.splits prod.splits if_splits)

lemma prove_iter_Return: "prove_iter E nIter st = Inr (Return v st') \<Longrightarrow> v = - 1"
  by (auto simp: prove_iter_def iter_stages_def split: sum.splits exit.splits if_splits
      dest: sat_stage_Return fraiging_stage_Return)

lemma prove_for_Return: "prove_for E nIter st = Inr (Return v st') \<Longrightarrow> v = - 1"
proof (induction E nIter st rule: prove_for.induct)
  case (1 E nIter st)
  show ?case
    using "1.prems" "1.IH"
    apply (subst (asm) prove_for.simps)
    by (auto split: if_splits sum.splits exit.splits dest: prove_iter_Return)
qed

lemma prove_tail_before_model:
  "prove_tail E st = Inr (v, st') \<Longrightarrow>
   RetValue (before_model E st) = Some v \<and> st' = assign_model E (before_model E st)"
  by (auto simp: prove_tail_def before_model_def Let_def split: option.splits if_splits)

text \<open>
  C7: let the SAT engine keep its contract, a network with a model whenever it answers
  0 (lines 44-47: when a SAT assignment is found, \<^verbatim>\<open>pNtk->pModel\<close> contains it), and let a
  call answer 0. Then the network handed back has a model. With rewriting
  or fraiging enabled the loop has ended in some \<open>x\<close> without returning, and \<open>st2\<close> are the
  variables when control reaches line 205, after the calls of the engines: their
  \<^verbatim>\<open>RetValue\<close> is 0. If the network of \<open>st2\<close> has no model, the call hands back \<open>st2\<close> with
  the model of that network set to zeros, one for each of its combinational inputs;
  otherwise it hands back \<open>st2\<close> as it is. In the minimal-effort mode the network handed
  back is the one the SAT attempt returned with its answer 0, which has a model by the
  contract.
\<close>

theorem all_zero_model:
  assumes "Abc_NtkMiterProve E ntk p = Inr (0, st)"
    and "\<And>n l i n' c k. Abc_NtkMiterSat E n l i = (0, n', c, k) \<Longrightarrow> pModel n' \<noteq> None"
  shows "pModel (pNtk st) \<noteq> None \<and>
         (fUseRewriting p \<or> fUseFraiging p \<longrightarrow>
            (\<exists>x st2. prove_for E 0 \<lparr>pNtk = ntk, pParams = p, RetValue = None, calls = []\<rparr> = Inr x \<and>
               st2 = before_model E (exit_state x) \<and> RetValue st2 = Some 0 \<and>
               (pModel (pNtk st2) = None \<longrightarrow>
                  st = st2\<lparr>pNtk := (pNtk st2)\<lparr>pModel :=
                              Some (replicate (Abc_NtkCiNum E (graph (pNtk st2))) 0)\<rparr>\<rparr>) \<and>
               (pModel (pNtk st2) \<noteq> None \<longrightarrow> st = st2))) \<and>
         (\<not> fUseRewriting p \<and> \<not> fUseFraiging p \<longrightarrow>
            (\<exists>c k. Abc_NtkMiterSat E ntk (nMiteringLimitLast p) 0 = (0, pNtk st, c, k)))"
proof -
  let ?st0 = "\<lparr>pNtk = ntk, pParams = p, RetValue = None, calls = []\<rparr>"
  have esc: "\<exists>x st2. prove_for E 0 ?st0 = Inr x \<and>
               st2 = before_model E (exit_state x) \<and> RetValue st2 = Some 0 \<and>
               (pModel (pNtk st2) = None \<longrightarrow>
                  st = st2\<lparr>pNtk := (pNtk st2)\<lparr>pModel :=
                              Some (replicate (Abc_NtkCiNum E (graph (pNtk st2))) 0)\<rparr>\<rparr>) \<and>
               (pModel (pNtk st2) \<noteq> None \<longrightarrow> st = st2)"
    if mode: "fUseRewriting p \<or> fUseFraiging p"
  proof -
    from assms(1) mode obtain x where x: "prove_for E 0 ?st0 = Inr x"
      by (auto simp: Abc_NtkMiterProve_def split: if_splits sum.splits)
    have "prove_tail E (exit_state x) = Inr (0, st)"
    proof (cases x)
      case (Return v st')
      with x have "v = - 1" by (auto dest: prove_for_Return)
      with Return x assms(1) mode show ?thesis
        by (auto simp: Abc_NtkMiterProve_def split: if_splits)
    next
      case (Continue st')
      with x assms(1) mode show ?thesis
        by (auto simp: Abc_NtkMiterProve_def split: if_splits)
    next
      case (Break st')
      with x assms(1) mode show ?thesis
        by (auto simp: Abc_NtkMiterProve_def split: if_splits)
    qed
    from prove_tail_before_model [OF this]
    have st2: "RetValue (before_model E (exit_state x)) = Some 0"
      "st = assign_model E (before_model E (exit_state x))" by simp_all
    show ?thesis
    proof (intro exI [of _ x] exI [of _ "before_model E (exit_state x)"] conjI impI)
      show "prove_for E 0 ?st0 = Inr x" by (rule x)
      show "RetValue (before_model E (exit_state x)) = Some 0" by (rule st2)
    qed (use st2 in \<open>simp_all add: assign_model_def\<close>)
  qed
  have minimal: "\<exists>c k. Abc_NtkMiterSat E ntk (nMiteringLimitLast p) 0 = (0, pNtk st, c, k)"
    if "\<not> fUseRewriting p \<and> \<not> fUseFraiging p"
    using that assms(1) by (auto simp: Abc_NtkMiterProve_def split: if_splits prod.splits)
  have model: "pModel (pNtk st) \<noteq> None"
  proof (cases "fUseRewriting p \<or> fUseFraiging p")
    case True
    from esc [OF True] obtain x st2 where
      "RetValue st2 = Some 0"
      "pModel (pNtk st2) = None \<longrightarrow>
         st = st2\<lparr>pNtk := (pNtk st2)\<lparr>pModel :=
                     Some (replicate (Abc_NtkCiNum E (graph (pNtk st2))) 0)\<rparr>\<rparr>"
      "pModel (pNtk st2) \<noteq> None \<longrightarrow> st = st2"
      by (elim exE conjE)
    then show ?thesis by (cases "pModel (pNtk st2)") auto
  next
    case False
    with minimal obtain c k where "Abc_NtkMiterSat E ntk (nMiteringLimitLast p) 0 = (0, pNtk st, c, k)"
      by blast
    then show ?thesis by (rule assms(2))
  qed
  from model esc minimal show ?thesis by blast
qed

theorem all_zero_model_witness:
  "Abc_NtkMiterProve toy (toy_ntk 3) toy_params_bdd =
     Inr (0, \<lparr>pNtk = \<lparr>pModel = Some [0, 0], graph = 1\<rparr>,
              pParams = toy_params_bdd\<lparr>nTotalBacktracksMade := 8, nTotalInspectsMade := 11\<rparr>,
              RetValue = Some 0,
              calls = [MiterSat 100 0 True (- 1) 5 7,
                       Rewrite, MiterIsConstant (- 1), Refactor, MiterIsConstant (- 1),
                       Balance, NtkDelete, MiterIsConstant (- 1),
                       MiterFraig 20 0 (- 1) 3 4, NtkDelete,
                       Collapse 10 False True, NtkDelete]\<rparr>) \<and>
   pModel \<lparr>pModel = Some [0, 0], graph = 1 :: nat\<rparr> \<noteq> None \<and>
   Abc_NtkMiterProve toy_sat_model (toy_ntk 7) toy_params_sat_only =
     Inr (0, \<lparr>pNtk = \<lparr>pModel = Some [1, 0], graph = 7\<rparr>, pParams = toy_params_sat_only,
              RetValue = Some 0, calls = [MiterSat 1000000 0 False 0 5 7]\<rparr>) \<and>
   pModel \<lparr>pModel = Some [1, 0], graph = 7 :: nat\<rparr> \<noteq> None"
proof -
  have run: "Abc_NtkMiterProve toy (toy_ntk 3) toy_params_bdd =
     Inr (0, \<lparr>pNtk = \<lparr>pModel = Some [0, 0], graph = 1\<rparr>,
              pParams = toy_params_bdd\<lparr>nTotalBacktracksMade := 8, nTotalInspectsMade := 11\<rparr>,
              RetValue = Some 0,
              calls = [MiterSat 100 0 True (- 1) 5 7,
                       Rewrite, MiterIsConstant (- 1), Refactor, MiterIsConstant (- 1),
                       Balance, NtkDelete, MiterIsConstant (- 1),
                       MiterFraig 20 0 (- 1) 3 4, NtkDelete,
                       Collapse 10 False True, NtkDelete]\<rparr>)"
    by (simp add: unfold_all unfold_toy replicate_2)
  have contract: "pModel n' \<noteq> None" if "Abc_NtkMiterSat toy n l i = (0, n', c, k)"
    for n l i n' c k
    using that by (simp add: toy_def split: if_splits)
  from all_zero_model [OF run contract, THEN conjunct1]
  have m: "pModel \<lparr>pModel = Some [0, 0], graph = 1 :: nat\<rparr> \<noteq> None"
    by simp
  have run': "Abc_NtkMiterProve toy_sat_model (toy_ntk 7) toy_params_sat_only =
     Inr (0, \<lparr>pNtk = \<lparr>pModel = Some [1, 0], graph = 7\<rparr>, pParams = toy_params_sat_only,
              RetValue = Some 0, calls = [MiterSat 1000000 0 False 0 5 7]\<rparr>)"
    by (simp add: Abc_NtkMiterProve_def unfold_toy)
  have contract': "pModel n' \<noteq> None" if "Abc_NtkMiterSat toy_sat_model n l i = (0, n', c, k)"
    for n l i n' c k
    using that by (auto simp: toy_sat_model_def toy_def)
  from all_zero_model [OF run' contract', THEN conjunct1]
  have m': "pModel \<lparr>pModel = Some [1, 0], graph = 7 :: nat\<rparr> \<noteq> None"
    by simp
  from run m run' m' show ?thesis by blast
qed

subsection \<open>The Local Optimization Driver\<close>

lemma transform_add3 [simp]: "transform E (k + 3) st = transform E k st"
  by (simp add: transform_def)

lemma optimization_driver_add3: "optimization_driver E b (k + 3) st = optimization_driver E b k st"
proof (induction b arbitrary: k st)
  case 0
  show ?case by simp
next
  case (Suc b)
  have "Suc (k + 3) = Suc k + 3" by simp
  then show ?case using Suc.IH [of "Suc k"] by (simp split: prod.splits)
qed

lemma transform_simps:
  "transform E 0 st = do_rewrite E st"
  "transform E (Suc 0) st = do_refactor E st"
  "transform E (Suc (Suc 0)) st = do_balance E st"
  "transform E (Suc (Suc (Suc 0))) st = do_rewrite E st"
  by (simp_all add: transform_def)

lemma rewriting_while_driver:
  "0 < Counter \<Longrightarrow> rewriting_while E Counter st = Inr (optimization_driver E (nat Counter) 0 st)"
proof (induction E Counter st rule: rewriting_while.induct)
  case (1 E Counter st)
  obtain r1 st1 where c1: "check_constant E (do_rewrite E st) = (r1, st1)" by fastforce
  obtain r2 st2 where c2: "check_constant E (do_refactor E st1) = (r2, st2)" by fastforce
  obtain r3 st3 where c3: "check_constant E (do_balance E st2) = (r3, st3)" by fastforce
  consider "Counter = 1" | "Counter = 2" | "Counter = 3" | "4 \<le> Counter"
    using "1.prems" by linarith
  then show ?case
  proof cases
    case 1
    then show ?thesis
      by (subst rewriting_while.simps) (simp add: c1 transform_simps INT_MIN_def)
  next
    case 2
    then have n: "nat Counter = Suc (Suc 0)" by simp
    show ?thesis unfolding n using 2
      by (subst rewriting_while.simps) (simp add: c1 c2 transform_simps INT_MIN_def)
  next
    case 3
    then have n: "nat Counter = Suc (Suc (Suc 0))" by simp
    show ?thesis unfolding n using 3
      by (subst rewriting_while.simps) (simp add: c1 c2 c3 transform_simps INT_MIN_def)
  next
    case 4
    then have n: "nat Counter = Suc (Suc (Suc (nat (Counter - 3))))" by simp
    have d3: "optimization_driver E (nat (Counter - 3)) (Suc (Suc (Suc 0))) st3 =
              optimization_driver E (nat (Counter - 3)) 0 st3"
      using optimization_driver_add3 [of E "nat (Counter - 3)" 0 st3] by (simp add: numeral_3_eq_3)
    show ?thesis
    proof (cases "r1 \<ge> 0 \<or> r2 \<ge> 0 \<or> r3 \<ge> 0")
      case True
      then show ?thesis unfolding n using 4
        by (subst rewriting_while.simps) (auto simp add: c1 c2 c3 transform_simps INT_MIN_def)
    next
      case False
      with 4 have IH: "rewriting_while E (Counter - 3) st3 =
                        Inr (optimization_driver E (nat (Counter - 3)) 0 st3)"
        using "1.IH" [OF c1 [symmetric] _ _ _ c2 [symmetric] _ _ _ c3 [symmetric]]
        by (simp add: INT_MIN_def)
      show ?thesis unfolding n using 4 False
        by (subst rewriting_while.simps) (simp add: c1 c2 c3 transform_simps INT_MIN_def IH d3)
    qed
  qed
qed


lemma check_constant_transform:
  "check_constant E (transform E k st) =
     (Abc_NtkMiterIsConstant E (graph (rot_engine E k (pNtk st))),
      st\<lparr>pNtk := rot_engine E k (pNtk st),
         RetValue := Some (Abc_NtkMiterIsConstant E (graph (rot_engine E k (pNtk st)))),
         calls := calls st @ transform_calls k @
                  [MiterIsConstant (Abc_NtkMiterIsConstant E (graph (rot_engine E k (pNtk st))))]\<rparr>)"
  by (simp add: check_constant_def transform_def transform_calls_def rot_engine_def Let_def
      do_rewrite_def do_refactor_def do_balance_def log_call_def)

lemma optimization_driver_run:
  "0 < b \<Longrightarrow>
   \<exists>rs. rs \<noteq> [] \<and> length rs \<le> b \<and>
        (\<forall>j < length rs.
           rs ! j = Abc_NtkMiterIsConstant E (graph (apply_rot E k (Suc j) (pNtk st)))) \<and>
        (\<forall>r \<in> set (butlast rs). r < 0) \<and>
        (last rs < 0 \<longrightarrow> length rs = b) \<and>
        optimization_driver E b k st =
          st\<lparr>pNtk := apply_rot E k (length rs) (pNtk st), RetValue := Some (last rs),
             calls := calls st @ rotation_log k rs\<rparr>"
proof (induction b arbitrary: k st)
  case 0
  then show ?case by simp
next
  case (Suc b)
  let ?r = "Abc_NtkMiterIsConstant E (graph (rot_engine E k (pNtk st)))"
  let ?st' = "st\<lparr>pNtk := rot_engine E k (pNtk st), RetValue := Some ?r,
                 calls := calls st @ transform_calls k @ [MiterIsConstant ?r]\<rparr>"
  note c = check_constant_transform [of E k st]
  show ?case
  proof (cases "?r \<ge> 0 \<or> b = 0")
    case True
    then have d: "optimization_driver E (Suc b) k st = ?st'"
      by (auto simp: c)
    show ?thesis
      unfolding d using True by (intro exI [of _ "[?r]"]) auto
  next
    case False
    then have d: "optimization_driver E (Suc b) k st = optimization_driver E b (Suc k) ?st'"
      by (simp add: c)
    from False have "0 < b" by simp
    from Suc.IH [OF this, of "Suc k" ?st'] obtain rs where rs:
      "rs \<noteq> []" "length rs \<le> b"
      "\<forall>j < length rs.
         rs ! j = Abc_NtkMiterIsConstant E (graph (apply_rot E (Suc k) (Suc j) (pNtk ?st')))"
      "\<forall>r \<in> set (butlast rs). r < 0"
      "last rs < 0 \<longrightarrow> length rs = b"
      "optimization_driver E b (Suc k) ?st' =
         ?st'\<lparr>pNtk := apply_rot E (Suc k) (length rs) (pNtk ?st'), RetValue := Some (last rs),
               calls := calls ?st' @ rotation_log (Suc k) rs\<rparr>"
      by (elim exE conjE)
    have nth: "\<forall>j < length (?r # rs).
         (?r # rs) ! j = Abc_NtkMiterIsConstant E (graph (apply_rot E k (Suc j) (pNtk st)))"
    proof (intro allI impI)
      fix j assume "j < length (?r # rs)"
      then show "(?r # rs) ! j = Abc_NtkMiterIsConstant E (graph (apply_rot E k (Suc j) (pNtk st)))"
        using rs(3) by (cases j) simp_all
    qed
    show ?thesis
      unfolding d rs(6) using rs(1,2,4,5) nth False
      by (intro exI [of _ "?r # rs"] conjI) simp_all
  qed
qed

lemma numeral_4_nat: "(4 :: nat) = Suc (Suc (Suc (Suc 0)))"
  by simp

text \<open>
  C4: started with a positive \<^verbatim>\<open>Counter\<close>, the loop of lines 125-142 ends, and it is the
  driver with that budget. Its calls are the rotation rewrite, refactor, balance, each
  followed by the check for a constant; their number, the length of \<open>rs\<close>, is at least
  one and at most \<^verbatim>\<open>Counter\<close>. Every check but the last was negative; the last one is
  the value left in \<^verbatim>\<open>RetValue\<close>, it is the check of the network the loop leaves, and
  when it is negative (no verdict) exactly \<^verbatim>\<open>Counter\<close> transformations were applied.
  The transformations are applied, not only called: the network the loop leaves is the
  one it was given after that many of the functions \<^verbatim>\<open>Abc_NtkRewrite\<close>,
  \<^verbatim>\<open>Abc_NtkRefactor\<close>, \<^verbatim>\<open>Abc_NtkBalance\<close>, in this order and over again; the check number
  \<open>j\<close> is the check of the network after \<open>j + 1\<close> of them; and nothing else of the
  variables changes.
\<close>

theorem local_optimization_driver:
  assumes "0 < Counter"
  shows "\<exists>st' rs. rewriting_while E Counter st = Inr st' \<and>
           st' = optimization_driver E (nat Counter) 0 st \<and>
           rs \<noteq> [] \<and> int (length rs) \<le> Counter \<and>
           calls st' = calls st @ rotation_log 0 rs \<and>
           (\<forall>r \<in> set (butlast rs). r < 0) \<and>
           RetValue st' = Some (last rs) \<and>
           last rs = Abc_NtkMiterIsConstant E (graph (pNtk st')) \<and>
           (last rs < 0 \<longrightarrow> int (length rs) = Counter) \<and>
           pNtk st' = apply_rot E 0 (length rs) (pNtk st) \<and>
           (\<forall>j < length rs.
              rs ! j = Abc_NtkMiterIsConstant E (graph (apply_rot E 0 (Suc j) (pNtk st)))) \<and>
           st' = st\<lparr>pNtk := apply_rot E 0 (length rs) (pNtk st), RetValue := Some (last rs),
                     calls := calls st @ rotation_log 0 rs\<rparr>"
proof -
  from assms have b: "0 < nat Counter" by simp
  from optimization_driver_run [OF b, of E 0 st] obtain rs where rs:
    "rs \<noteq> []" "length rs \<le> nat Counter"
    "\<forall>j < length rs.
       rs ! j = Abc_NtkMiterIsConstant E (graph (apply_rot E 0 (Suc j) (pNtk st)))"
    "\<forall>r \<in> set (butlast rs). r < 0"
    "last rs < 0 \<longrightarrow> length rs = nat Counter"
    "optimization_driver E (nat Counter) 0 st =
       st\<lparr>pNtk := apply_rot E 0 (length rs) (pNtk st), RetValue := Some (last rs),
          calls := calls st @ rotation_log 0 rs\<rparr>"
    by (elim exE conjE)
  from rs(2) assms have le: "int (length rs) \<le> Counter" by linarith
  from rs(5) assms have eq: "last rs < 0 \<longrightarrow> int (length rs) = Counter" by auto
  from rs(1) obtain m where m: "length rs = Suc m" by (cases rs) simp_all
  with rs(3) have "rs ! m = Abc_NtkMiterIsConstant E (graph (apply_rot E 0 (Suc m) (pNtk st)))"
    by simp
  with m have lst:
    "last rs = Abc_NtkMiterIsConstant E (graph (apply_rot E 0 (length rs) (pNtk st)))"
    by (simp add: last_conv_nth [OF rs(1)])
  let ?st' = "st\<lparr>pNtk := apply_rot E 0 (length rs) (pNtk st), RetValue := Some (last rs),
                 calls := calls st @ rotation_log 0 rs\<rparr>"
  have run: "rewriting_while E Counter st = Inr ?st'"
    using rewriting_while_driver [OF assms, of E st] rs(6) by simp
  show ?thesis
  proof (intro exI [of _ ?st'] exI [of _ rs] conjI)
    show "rewriting_while E Counter st = Inr ?st'" by (rule run)
    show "?st' = optimization_driver E (nat Counter) 0 st" using rs(6) by simp
    show "rs \<noteq> []" by (rule rs(1))
    show "int (length rs) \<le> Counter" by (rule le)
    show "\<forall>r \<in> set (butlast rs). r < 0" by (rule rs(4))
    show "last rs < 0 \<longrightarrow> int (length rs) = Counter" by (rule eq)
    show "\<forall>j < length rs.
            rs ! j = Abc_NtkMiterIsConstant E (graph (apply_rot E 0 (Suc j) (pNtk st)))"
      by (rule rs(3))
    show "last rs = Abc_NtkMiterIsConstant E (graph (pNtk ?st'))" using lst by simp
  qed simp_all
qed

theorem local_optimization_driver_witness:
  "(0 :: int) < 4 \<and>
   rewriting_while toy_balance 4
       \<lparr>pNtk = toy_ntk 5, pParams = toy_params, RetValue = Some (- 1), calls = []\<rparr> =
     Inr \<lparr>pNtk = toy_ntk 3, pParams = toy_params, RetValue = Some (- 1),
          calls = [Rewrite, MiterIsConstant (- 1), Refactor, MiterIsConstant (- 1),
                   Balance, NtkDelete, MiterIsConstant (- 1), Rewrite, MiterIsConstant (- 1)]\<rparr>"
proof -
  have "(0 :: int) < 4" by simp
  from local_optimization_driver [OF this, of toy_balance
      "\<lparr>pNtk = toy_ntk 5, pParams = toy_params, RetValue = Some (- 1), calls = []\<rparr>"]
  show ?thesis
    by (simp add: unfold_toy numeral_4_nat transform_simps check_constant_def do_rewrite_def
        do_refactor_def do_balance_def log_call_def Let_def)
qed

subsection \<open>A verdict of the rewriting stage\<close>

text \<open>
  C1 does not hold of the code. The \<^verbatim>\<open>break\<close> statements of lines 129, 134 and 139 leave
  the \<^verbatim>\<open>while\<close> loop only; unlike the SAT and the fraiging stage, the rewriting stage is
  not followed by \<^verbatim>\<open>if ( RetValue >= 0 ) break;\<close>. In the first run below the first
  rewriting turns the one-node miter into the constant zero and the check answers 1, and
  the same iteration goes on to call \<^verbatim>\<open>Abc_NtkMiterFraig\<close>. In the second run fraiging is
  off and two iterations are allowed: after the same verdict the loop starts its second
  iteration with another SAT call.
\<close>

theorem rewriting_verdict_not_final:
  "Abc_NtkMiterProve toy (toy_ntk 1) toy_params =
     Inr (1, \<lparr>pNtk = \<lparr>pModel = None, graph = 0\<rparr>,
              pParams = toy_params\<lparr>nTotalBacktracksMade := 5, nTotalInspectsMade := 7\<rparr>,
              RetValue = Some 1,
              calls = [MiterSat 100 0 True (- 1) 5 7, Rewrite, MiterIsConstant 1,
                       MiterFraig 20 0 1 3 4, NtkDelete]\<rparr>) \<and>
   Abc_NtkMiterProve toy (toy_ntk 1) (toy_params\<lparr>fUseFraiging := False, nItersMax := 2\<rparr>) =
     Inr (1, \<lparr>pNtk = \<lparr>pModel = None, graph = 0\<rparr>,
              pParams = toy_params\<lparr>fUseFraiging := False, nItersMax := 2,
                          nTotalBacktracksMade := 5, nTotalInspectsMade := 7\<rparr>,
              RetValue = Some 1,
              calls = [MiterSat 100 0 True (- 1) 5 7, Rewrite, MiterIsConstant 1,
                       MiterSat 200 0 True 1 5 7]\<rparr>)"
  by (simp add: unfold_all unfold_toy)

subsection \<open>The schedule of the stage limits\<close>







subsection \<open>The global limits\<close>

lemma is_fallback_simps [simp]:
  "is_fallback (Collapse l o' ok)"
  "is_fallback (MiterSat l i s r c n) \<longleftrightarrow> \<not> s"
  "\<not> is_fallback Rewrite" "\<not> is_fallback Refactor" "\<not> is_fallback Balance"
  "\<not> is_fallback NtkDelete" "\<not> is_fallback (MiterIsConstant r)"
  "\<not> is_fallback (MiterFraig b i r c n)"
  by (simp_all add: is_fallback_def)











subsection \<open>The running totals\<close>

lemma accounted_simps [simp]:
  "accounted (MiterSat l i s r cn n) \<longleftrightarrow> s \<and> r < 0"
  "accounted (MiterFraig b i r cn n) \<longleftrightarrow> r < 0"
  "\<not> accounted Rewrite" "\<not> accounted Refactor" "\<not> accounted Balance"
  "\<not> accounted NtkDelete" "\<not> accounted (MiterIsConstant r)" "\<not> accounted (Collapse l o' ok)"
  by (simp_all add: accounted_def)

lemma charge_simps [simp]:
  "charge p (MiterSat l i s r cn n) = (if s \<and> r < 0 then plus_totals p cn n else p)"
  "charge p (MiterFraig b i r cn n) = (if r < 0 then plus_totals p cn n else p)"
  "charge p Rewrite = p" "charge p Refactor = p" "charge p Balance = p"
  "charge p NtkDelete = p" "charge p (MiterIsConstant r) = p" "charge p (Collapse l o' ok) = p"
  by (simp_all add: charge_def)

lemma first_hit_append:
  "first_hit p (cs1 @ cs2) =
     (case first_hit p cs1 of Some r \<Rightarrow> Some (r @ cs2) | None \<Rightarrow> first_hit (foldl charge p cs1) cs2)"
  by (induction cs1 arbitrary: p) (auto split: option.splits)

lemma sat_stage_booked:
  assumes "booked p st" and "sat_stage E nIter st = Inr x"
  shows "case x of Return v st' \<Rightarrow> v = - 1 \<and> aborted p st' | _ \<Rightarrow> booked p (exit_state x)"
  using assms
  by (auto simp: sat_stage_def Let_def booked_def aborted_def first_hit_append
      split: sum.splits prod.splits if_splits dest!: add_totals_Inr)

lemma fraiging_stage_booked:
  assumes "booked p st" and "fraiging_stage E nIter st = Inr x"
  shows "case x of Return v st' \<Rightarrow> v = - 1 \<and> aborted p st' | _ \<Rightarrow> booked p (exit_state x)"
  using assms
  by (auto simp: fraiging_stage_def Let_def booked_def aborted_def first_hit_append
      split: sum.splits prod.splits if_splits dest!: add_totals_Inr)

lemma booked_do:
  "booked p st \<Longrightarrow> booked p (snd (check_constant E st))"
  "booked p st \<Longrightarrow> booked p (do_rewrite E st)"
  "booked p st \<Longrightarrow> booked p (do_refactor E st)"
  "booked p st \<Longrightarrow> booked p (do_balance E st)"
  by (simp_all add: booked_def first_hit_append check_constant_def do_rewrite_def do_refactor_def
      do_balance_def Let_def log_call_def)

lemma rewriting_while_booked:
  "rewriting_while E Counter st = Inr st' \<Longrightarrow> booked p st \<Longrightarrow> booked p st'"
proof (induction E Counter st rule: rewriting_while.induct)
  case (1 E Counter st)
  obtain r1 st1 where c1: "check_constant E (do_rewrite E st) = (r1, st1)" by fastforce
  obtain r2 st2 where c2: "check_constant E (do_refactor E st1) = (r2, st2)" by fastforce
  obtain r3 st3 where c3: "check_constant E (do_balance E st2) = (r3, st3)" by fastforce
  from "1.prems"(2) c1 booked_do(1) [OF booked_do(2), of p st E E] have b1: "booked p st1" by simp
  from b1 c2 booked_do(1) [OF booked_do(3), of p st1 E E] have b2: "booked p st2" by simp
  from b2 c3 booked_do(1) [OF booked_do(4), of p st2 E E] have b3: "booked p st3" by simp
  show ?case
    using "1.prems"(1) "1.IH" [OF c1 [symmetric] _ _ _ c2 [symmetric] _ _ _ c3 [symmetric]] b1 b2 b3
    apply (subst (asm) rewriting_while.simps)
    by (auto simp: c1 c2 c3 split: if_splits)
qed

lemma iter_stages_booked:
  assumes "booked p st" and "iter_stages E nIter st = Inr x"
  shows "case x of Return v st' \<Rightarrow> v = - 1 \<and> aborted p st' | _ \<Rightarrow> booked p (exit_state x)"
proof (cases "sat_stage E nIter st")
  case (Inl e)
  with assms show ?thesis by (simp add: iter_stages_def)
next
  case (Inr y)
  note sat = sat_stage_booked [OF assms(1) Inr]
  show ?thesis
  proof (cases y)
    case (Continue st1)
    with Inr assms obtain st2 where
      rw: "(if fUseRewriting (pParams st1) then rewriting_stage E nIter st1 else Inr st1) = Inr st2"
      and fr: "(if fUseFraiging (pParams st2) then fraiging_stage E nIter st2 else Inr (Continue st2)) = Inr x"
      by (auto simp: iter_stages_def split: sum.splits)
    from rw sat Continue have b2: "booked p st2"
      by (auto simp: rewriting_stage_def split: if_splits sum.splits dest: rewriting_while_booked)
    show ?thesis
    proof (cases "fUseFraiging (pParams st2)")
      case True
      with fr fraiging_stage_booked [OF b2] show ?thesis by simp
    next
      case False
      with fr b2 show ?thesis by auto
    qed
  next
    case (Break st')
    with Inr assms sat show ?thesis by (auto simp: iter_stages_def)
  next
    case (Return v st')
    with Inr assms sat show ?thesis by (auto simp: iter_stages_def)
  qed
qed

lemma prove_iter_booked:
  assumes "booked p st" and "prove_iter E nIter st = Inr x"
  shows "case x of Return v st' \<Rightarrow> v = - 1 \<and> aborted p st' | _ \<Rightarrow> booked p (exit_state x)"
  using iter_stages_booked [OF assms(1) prove_iter_Inr [OF assms(2)]] .

lemma prove_for_booked:
  "prove_for E nIter st = Inr x \<Longrightarrow> booked p st \<Longrightarrow>
   (case x of Return v st' \<Rightarrow> v = - 1 \<and> aborted p st' | _ \<Rightarrow> booked p (exit_state x))"
proof (induction E nIter st rule: prove_for.induct)
  case (1 E nIter st)
  show ?case
  proof (cases "nIter < nItersMax (pParams st)")
    case False
    with "1.prems" show ?thesis by (auto simp: prove_for.simps [of E nIter st])
  next
    case True
    with "1.prems"(1) obtain y where y: "prove_iter E nIter st = Inr y"
      by (auto simp: prove_for.simps [of E nIter st] split: sum.splits)
    note it = prove_iter_booked [OF "1.prems"(2) y]
    show ?thesis
    proof (cases y)
      case (Continue st')
      with True y "1.prems"(1) have "prove_for E (nIter + 1) st' = Inr x"
        by (simp add: prove_for.simps [of E nIter st])
      moreover from it Continue have "booked p st'" by simp
      ultimately show ?thesis using "1.IH" [OF True y Continue] by blast
    next
      case (Break st')
      with True y "1.prems"(1) it show ?thesis by (auto simp: prove_for.simps [of E nIter st])
    next
      case (Return v st')
      with True y "1.prems"(1) it show ?thesis by (auto simp: prove_for.simps [of E nIter st])
    qed
  qed
qed

lemma bdd_stage_booked: "booked p st \<Longrightarrow> booked p (bdd_stage E st)"
  by (auto simp: bdd_stage_def booked_def first_hit_append log_call_def split: option.splits)

lemma last_sat_booked: "booked p st \<Longrightarrow> booked p (last_sat E st)"
  by (auto simp: last_sat_def booked_def first_hit_append log_call_def Let_def split: prod.splits)

lemma assign_model_booked: "booked p st \<Longrightarrow> booked p (assign_model E st)"
  by (auto simp: assign_model_def booked_def)

lemma prove_tail_booked:
  assumes "prove_tail E st = Inr (v, st')" and "booked p st"
  shows "booked p st'"
  using assms
  by (auto simp: prove_tail_def Let_def split: option.splits if_splits
      intro!: assign_model_booked last_sat_booked bdd_stage_booked)

lemma Abc_NtkMiterProve_booked:
  assumes "Abc_NtkMiterProve E ntk p = Inr (v, st)"
  shows "booked p st \<or> v = - 1 \<and> aborted p st"
proof (cases "\<not> fUseRewriting p \<and> \<not> fUseFraiging p")
  case True
  with assms show ?thesis
    by (auto simp: Abc_NtkMiterProve_def booked_def split: if_splits prod.splits)
next
  case False
  let ?st0 = "\<lparr>pNtk = ntk, pParams = p, RetValue = None, calls = []\<rparr>"
  have b0: "booked p ?st0" by (simp add: booked_def)
  from False assms obtain x where x: "prove_for E 0 ?st0 = Inr x"
    by (auto simp: Abc_NtkMiterProve_def split: if_splits sum.splits)
  note pf = prove_for_booked [OF x b0]
  show ?thesis
  proof (cases x)
    case (Return v' st')
    with x assms False pf show ?thesis
      by (auto simp: Abc_NtkMiterProve_def split: if_splits)
  next
    case (Continue st')
    with x assms False have "prove_tail E st' = Inr (v, st)"
      by (auto simp: Abc_NtkMiterProve_def split: if_splits)
    from prove_tail_booked [OF this] pf Continue show ?thesis by simp
  next
    case (Break st')
    with x assms False have "prove_tail E st' = Inr (v, st)"
      by (auto simp: Abc_NtkMiterProve_def split: if_splits)
    from prove_tail_booked [OF this] pf Break show ?thesis by simp
  qed
qed


lemma first_hit_None:
  assumes "first_hit p cs = None" and "cs = cs1 @ c # cs2" and "accounted c"
  shows "\<not> limit_reached (foldl charge p (cs1 @ [c]))"
  using assms by (auto simp: first_hit_append split: option.splits if_splits)

lemma first_hit_Some:
  assumes "first_hit p cs = Some r" and "set r \<subseteq> {NtkDelete}" and "cs = cs1 @ c # cs2"
    and "accounted c" and "limit_reached (foldl charge p (cs1 @ [c]))"
  shows "cs2 = r"
proof (cases "first_hit p cs1")
  case None
  with assms show ?thesis by (simp add: first_hit_append)
next
  case (Some r1)
  with assms have "r = r1 @ c # cs2" by (simp add: first_hit_append)
  with assms(2) have "c = NtkDelete" by auto
  with assms(4) show ?thesis by simp
qed

lemma add_totals_fits:
  "add_totals p c n = Inr p' \<Longrightarrow>
   p' = plus_totals p c n \<and> fits_sint64 (nTotalBacktracksMade (plus_totals p c n)) \<and>
   fits_sint64 (nTotalInspectsMade (plus_totals p c n))"
  by (auto simp: add_totals_def plus_totals_def split: if_splits)

lemma unbilled_simps [simp]:
  "unbilled (MiterSat l i s r cn n) \<longleftrightarrow> \<not> s \<or> 0 \<le> r"
  "unbilled (MiterFraig b i r cn n) \<longleftrightarrow> 0 \<le> r"
  "\<not> unbilled Rewrite" "\<not> unbilled Refactor" "\<not> unbilled Balance"
  "\<not> unbilled NtkDelete" "\<not> unbilled (MiterIsConstant r)" "\<not> unbilled (Collapse l o' ok)"
  by (simp_all add: unbilled_def)

lemma returned_simps [simp]:
  "returned (MiterSat l i s r cn n) = r"
  "returned (MiterFraig b i r cn n) = r"
  by (simp_all add: returned_def)

lemma unbilled_charge: "unbilled c \<Longrightarrow> charge p c = p"
  by (cases c) (auto simp: unbilled_def)

lemma in_range_append:
  "in_range p (cs1 @ cs2) \<longleftrightarrow> in_range p cs1 \<and> in_range (foldl charge p cs1) cs2"
  by (induction cs1 arbitrary: p) auto

lemma settled_append:
  "\<forall>c \<in> set cs1. \<not> unbilled c \<Longrightarrow> settled v (cs1 @ cs2) = settled v cs2"
  by (induction cs1) auto

lemma settled_clean: "\<forall>c \<in> set cs. \<not> unbilled c \<Longrightarrow> settled v cs"
  using settled_append [of cs v "[]"] by simp

lemma in_range_split:
  "in_range p (cs1 @ c # cs2) \<Longrightarrow> accounted c \<Longrightarrow>
   fits_sint64 (nTotalBacktracksMade (foldl charge p (cs1 @ [c]))) \<and>
   fits_sint64 (nTotalInspectsMade (foldl charge p (cs1 @ [c])))"
  by (simp add: in_range_append)

lemma settled_split:
  "settled v (cs1 @ c # cs2) \<Longrightarrow> unbilled c \<Longrightarrow> v = returned c \<and> set cs2 \<subseteq> {NtkDelete}"
  by (induction cs1) auto

lemma sat_stage_tidy:
  assumes "tidy p st" and "sat_stage E nIter st = Inr x"
  shows "case x of Break st' \<Rightarrow> ended p st' | _ \<Rightarrow> tidy p (exit_state x)"
  using assms
  by (auto simp: sat_stage_def Let_def tidy_def ended_def in_range_append settled_append
      split: sum.splits prod.splits if_splits dest!: add_totals_fits)

lemma fraiging_stage_tidy:
  assumes "tidy p st" and "fraiging_stage E nIter st = Inr x"
  shows "case x of Break st' \<Rightarrow> ended p st' | _ \<Rightarrow> tidy p (exit_state x)"
  using assms
  by (auto simp: fraiging_stage_def Let_def tidy_def ended_def in_range_append settled_append
      split: sum.splits prod.splits if_splits dest!: add_totals_fits)

lemma tidy_do:
  "tidy p st \<Longrightarrow> tidy p (snd (check_constant E st))"
  "tidy p st \<Longrightarrow> tidy p (do_rewrite E st)"
  "tidy p st \<Longrightarrow> tidy p (do_refactor E st)"
  "tidy p st \<Longrightarrow> tidy p (do_balance E st)"
  by (simp_all add: tidy_def in_range_append check_constant_def do_rewrite_def do_refactor_def
      do_balance_def Let_def log_call_def)

lemma rewriting_while_tidy:
  "rewriting_while E Counter st = Inr st' \<Longrightarrow> tidy p st \<Longrightarrow> tidy p st'"
proof (induction E Counter st rule: rewriting_while.induct)
  case (1 E Counter st)
  obtain r1 st1 where c1: "check_constant E (do_rewrite E st) = (r1, st1)" by fastforce
  obtain r2 st2 where c2: "check_constant E (do_refactor E st1) = (r2, st2)" by fastforce
  obtain r3 st3 where c3: "check_constant E (do_balance E st2) = (r3, st3)" by fastforce
  from "1.prems"(2) c1 tidy_do(1) [OF tidy_do(2), of p st E E] have b1: "tidy p st1" by simp
  from b1 c2 tidy_do(1) [OF tidy_do(3), of p st1 E E] have b2: "tidy p st2" by simp
  from b2 c3 tidy_do(1) [OF tidy_do(4), of p st2 E E] have b3: "tidy p st3" by simp
  show ?case
    using "1.prems"(1) "1.IH" [OF c1 [symmetric] _ _ _ c2 [symmetric] _ _ _ c3 [symmetric]] b1 b2 b3
    apply (subst (asm) rewriting_while.simps)
    by (auto simp: c1 c2 c3 split: if_splits)
qed

lemma iter_stages_tidy:
  assumes "tidy p st" and "iter_stages E nIter st = Inr x"
  shows "case x of Break st' \<Rightarrow> ended p st' | _ \<Rightarrow> tidy p (exit_state x)"
proof (cases "sat_stage E nIter st")
  case (Inl e)
  with assms show ?thesis by (simp add: iter_stages_def)
next
  case (Inr y)
  note sat = sat_stage_tidy [OF assms(1) Inr]
  show ?thesis
  proof (cases y)
    case (Continue st1)
    with Inr assms obtain st2 where
      rw: "(if fUseRewriting (pParams st1) then rewriting_stage E nIter st1 else Inr st1) = Inr st2"
      and fr: "(if fUseFraiging (pParams st2) then fraiging_stage E nIter st2 else Inr (Continue st2)) = Inr x"
      by (auto simp: iter_stages_def split: sum.splits)
    from rw sat Continue have b2: "tidy p st2"
      by (auto simp: rewriting_stage_def split: if_splits sum.splits dest: rewriting_while_tidy)
    show ?thesis
    proof (cases "fUseFraiging (pParams st2)")
      case True
      with fr fraiging_stage_tidy [OF b2] show ?thesis by simp
    next
      case False
      with fr b2 show ?thesis by auto
    qed
  next
    case (Break st')
    with Inr assms sat show ?thesis by (auto simp: iter_stages_def)
  next
    case (Return v st')
    with Inr assms sat show ?thesis by (auto simp: iter_stages_def)
  qed
qed

lemma prove_for_tidy:
  "prove_for E nIter st = Inr x \<Longrightarrow> tidy p st \<Longrightarrow>
   (case x of Break st' \<Rightarrow> ended p st' | _ \<Rightarrow> tidy p (exit_state x))"
proof (induction E nIter st rule: prove_for.induct)
  case (1 E nIter st)
  show ?case
  proof (cases "nIter < nItersMax (pParams st)")
    case False
    with "1.prems" show ?thesis by (auto simp: prove_for.simps [of E nIter st])
  next
    case True
    with "1.prems"(1) obtain y where y: "prove_iter E nIter st = Inr y"
      by (auto simp: prove_for.simps [of E nIter st] split: sum.splits)
    note it = iter_stages_tidy [OF "1.prems"(2) prove_iter_Inr [OF y]]
    show ?thesis
    proof (cases y)
      case (Continue st')
      with True y "1.prems"(1) have "prove_for E (nIter + 1) st' = Inr x"
        by (simp add: prove_for.simps [of E nIter st])
      moreover from it Continue have "tidy p st'" by simp
      ultimately show ?thesis using "1.IH" [OF True y Continue] by blast
    next
      case (Break st')
      with True y "1.prems"(1) it show ?thesis by (auto simp: prove_for.simps [of E nIter st])
    next
      case (Return v st')
      with True y "1.prems"(1) it show ?thesis by (auto simp: prove_for.simps [of E nIter st])
    qed
  qed
qed

lemma prove_tail_tidy:
  assumes "prove_tail E st = Inr (v, st')" and "tidy p st"
  shows "in_range p (calls st') \<and> settled v (calls st')"
  using assms
  by (auto simp: prove_tail_def Let_def tidy_def assign_model_def last_sat_def bdd_stage_def
      log_call_def in_range_append settled_append settled_clean
      split: option.splits if_splits prod.splits)

lemma prove_tail_ended:
  assumes "prove_tail E st = Inr (v, st')" and "ended p st"
  shows "in_range p (calls st') \<and> settled v (calls st')"
  using assms
  by (auto simp: prove_tail_def Let_def ended_def assign_model_def
      split: option.splits if_splits)

lemma Abc_NtkMiterProve_settled:
  assumes "Abc_NtkMiterProve E ntk p = Inr (v, st)"
  shows "in_range p (calls st) \<and> settled v (calls st)"
proof (cases "\<not> fUseRewriting p \<and> \<not> fUseFraiging p")
  case True
  with assms show ?thesis
    by (auto simp: Abc_NtkMiterProve_def split: if_splits prod.splits)
next
  case False
  let ?st0 = "\<lparr>pNtk = ntk, pParams = p, RetValue = None, calls = []\<rparr>"
  have b0: "tidy p ?st0" by (simp add: tidy_def)
  from False assms obtain x where x: "prove_for E 0 ?st0 = Inr x"
    by (auto simp: Abc_NtkMiterProve_def split: if_splits sum.splits)
  note pf = prove_for_tidy [OF x b0]
  show ?thesis
  proof (cases x)
    case (Return v' st')
    with x assms False pf show ?thesis
      by (auto simp: Abc_NtkMiterProve_def tidy_def settled_clean split: if_splits)
  next
    case (Continue st')
    with x assms False have "prove_tail E st' = Inr (v, st)"
      by (auto simp: Abc_NtkMiterProve_def split: if_splits)
    from prove_tail_tidy [OF this] pf Continue show ?thesis by simp
  next
    case (Break st')
    with x assms False have "prove_tail E st' = Inr (v, st)"
      by (auto simp: Abc_NtkMiterProve_def split: if_splits)
    from prove_tail_ended [OF this] pf Break show ?thesis by simp
  qed
qed

text \<open>
  C2, as stated, fails for the two SAT attempts it names. Both pass \<^verbatim>\<open>NULL\<close> for the
  counters: what they use is not added to the totals, and no limit is checked after them.
  In the first run (minimal-effort mode, limit of 1 backtrack) the SAT call uses 5
  conflicts and the totals stay 0. In the second (limit of 9 backtracks) the loop
  leaves the total at 8; the last SAT attempt uses 5 more, and the total is still 8.
\<close>

theorem totals_accounting_counterexample:
  "Abc_NtkMiterProve toy (toy_ntk 7) (toy_params_sat_only\<lparr>nTotalBacktrackLimit := 1\<rparr>) =
     Inr (- 1, \<lparr>pNtk = toy_ntk 7, pParams = toy_params_sat_only\<lparr>nTotalBacktrackLimit := 1\<rparr>,
                RetValue = Some (- 1), calls = [MiterSat 1000000 0 False (- 1) 5 7]\<rparr>) \<and>
   nTotalBacktracksMade (toy_params_sat_only\<lparr>nTotalBacktrackLimit := 1\<rparr>) = 0 \<and>
   nTotalInspectsMade (toy_params_sat_only\<lparr>nTotalBacktrackLimit := 1\<rparr>) = 0 \<and>
   Abc_NtkMiterProve toy (toy_ntk 7) (toy_params\<lparr>nTotalBacktrackLimit := 9\<rparr>) =
     Inr (- 1, \<lparr>pNtk = toy_ntk 5,
                pParams = toy_params\<lparr>nTotalBacktrackLimit := 9,
                                      nTotalBacktracksMade := 8, nTotalInspectsMade := 11\<rparr>,
                RetValue = Some (- 1),
                calls = [MiterSat 100 0 True (- 1) 5 7,
                         Rewrite, MiterIsConstant (- 1), Refactor, MiterIsConstant (- 1),
                         Balance, NtkDelete, MiterIsConstant (- 1),
                         MiterFraig 20 0 (- 1) 3 4, NtkDelete,
                         MiterSat 1000000 0 False (- 1) 5 7]\<rparr>)"
  by (simp add: unfold_all unfold_toy)

text \<open>
  C2, amended: in every call that returns, the parameters it leaves are the ones it was
  given with the totals updated for each accounted call of the log, in order: each SAT
  call of the loop and each fraiging call that returned a negative value; none of these
  additions has left the type \<^verbatim>\<open>sint64\<close>. The limits are checked right after each
  update: an accounted call that brings a total to its nonzero limit is the last call of
  an engine (only the deletion of the network that fraiging replaced may follow), and
  the call returns \<open>- 1\<close>. Every other SAT or fraiging call of the log, that is one that
  returned a verdict, the SAT attempt of the minimal-effort mode or the last SAT
  attempt, adds nothing to the totals and no limit is looked at after it: it is the last
  call of an engine, and the value it returned is the value of the call, whatever the
  totals and the limits are.
\<close>

theorem totals_accounting:
  assumes "Abc_NtkMiterProve E ntk p = Inr (v, st)"
  shows "pParams st = foldl charge p (calls st) \<and>
         (\<forall>cs1 c cs2. calls st = cs1 @ c # cs2 \<and> accounted c \<longrightarrow>
            fits_sint64 (nTotalBacktracksMade (foldl charge p (cs1 @ [c]))) \<and>
            fits_sint64 (nTotalInspectsMade (foldl charge p (cs1 @ [c])))) \<and>
         (\<forall>cs1 c cs2. calls st = cs1 @ c # cs2 \<and> accounted c \<and>
              limit_reached (foldl charge p (cs1 @ [c])) \<longrightarrow>
            v = - 1 \<and> set cs2 \<subseteq> {NtkDelete}) \<and>
         (\<forall>cs1 c cs2. calls st = cs1 @ c # cs2 \<and> unbilled c \<longrightarrow>
            foldl charge p (cs1 @ [c]) = foldl charge p cs1 \<and>
            v = returned c \<and> set cs2 \<subseteq> {NtkDelete})"
proof -
  note s = Abc_NtkMiterProve_settled [OF assms]
  have rng: "\<forall>cs1 c cs2. calls st = cs1 @ c # cs2 \<and> accounted c \<longrightarrow>
            fits_sint64 (nTotalBacktracksMade (foldl charge p (cs1 @ [c]))) \<and>
            fits_sint64 (nTotalInspectsMade (foldl charge p (cs1 @ [c])))"
  proof (intro allI impI)
    fix cs1 c cs2
    assume a: "calls st = cs1 @ c # cs2 \<and> accounted c"
    with s have "in_range p (cs1 @ c # cs2)" by simp
    from in_range_split [OF this] a
    show "fits_sint64 (nTotalBacktracksMade (foldl charge p (cs1 @ [c]))) \<and>
          fits_sint64 (nTotalInspectsMade (foldl charge p (cs1 @ [c])))"
      by simp
  qed
  have unb: "\<forall>cs1 c cs2. calls st = cs1 @ c # cs2 \<and> unbilled c \<longrightarrow>
            foldl charge p (cs1 @ [c]) = foldl charge p cs1 \<and>
            v = returned c \<and> set cs2 \<subseteq> {NtkDelete}"
  proof (intro allI impI)
    fix cs1 c cs2
    assume a: "calls st = cs1 @ c # cs2 \<and> unbilled c"
    with s have "settled v (cs1 @ c # cs2)" by simp
    from settled_split [OF this] a unbilled_charge [of c "foldl charge p cs1"]
    show "foldl charge p (cs1 @ [c]) = foldl charge p cs1 \<and>
          v = returned c \<and> set cs2 \<subseteq> {NtkDelete}"
      by simp
  qed
  from Abc_NtkMiterProve_booked [OF assms]
  consider "booked p st" | "v = - 1" "aborted p st" by blast
  then have "pParams st = foldl charge p (calls st) \<and>
         (\<forall>cs1 c cs2. calls st = cs1 @ c # cs2 \<and> accounted c \<and>
              limit_reached (foldl charge p (cs1 @ [c])) \<longrightarrow>
            v = - 1 \<and> set cs2 \<subseteq> {NtkDelete})"
  proof cases
    case 1
    then show ?thesis
      by (auto simp: booked_def dest: first_hit_None)
  next
    case 2
    from 2(2) obtain r where r: "first_hit p (calls st) = Some r" "set r \<subseteq> {NtkDelete}"
      and pp: "pParams st = foldl charge p (calls st)"
      by (auto simp: aborted_def)
    show ?thesis
    proof (intro conjI allI impI)
      show "pParams st = foldl charge p (calls st)" by (rule pp)
    next
      fix cs1 c cs2
      assume "calls st = cs1 @ c # cs2 \<and> accounted c \<and> limit_reached (foldl charge p (cs1 @ [c]))"
      show "v = - 1" by (rule 2(1))
    next
      fix cs1 c cs2
      assume a: "calls st = cs1 @ c # cs2 \<and> accounted c \<and> limit_reached (foldl charge p (cs1 @ [c]))"
      then have "cs2 = r" using first_hit_Some [OF r] by blast
      with r(2) show "set cs2 \<subseteq> {NtkDelete}" by simp
    qed
  qed
  with rng unb show ?thesis by blast
qed

theorem totals_accounting_witness:
  "Abc_NtkMiterProve toy (toy_ntk 7) toy_params_insps =
     Inr (- 1, \<lparr>pNtk = toy_ntk 5,
                pParams = toy_params_insps\<lparr>nTotalBacktracksMade := 8, nTotalInspectsMade := 11\<rparr>,
                RetValue = Some (- 1),
                calls = [MiterSat 100 10 True (- 1) 5 7,
                         Rewrite, MiterIsConstant (- 1), Refactor, MiterIsConstant (- 1),
                         Balance, NtkDelete, MiterIsConstant (- 1)] @
                        MiterFraig 20 3 (- 1) 3 4 # [NtkDelete]\<rparr>) \<and>
   accounted (MiterFraig 20 3 (- 1) 3 4) \<and>
   limit_reached (foldl charge toy_params_insps
     ([MiterSat 100 10 True (- 1) 5 7,
       Rewrite, MiterIsConstant (- 1), Refactor, MiterIsConstant (- 1),
       Balance, NtkDelete, MiterIsConstant (- 1)] @ [MiterFraig 20 3 (- 1) 3 4])) \<and>
   toy_params_insps\<lparr>nTotalBacktracksMade := 8, nTotalInspectsMade := 11\<rparr> =
     foldl charge toy_params_insps
       ([MiterSat 100 10 True (- 1) 5 7,
         Rewrite, MiterIsConstant (- 1), Refactor, MiterIsConstant (- 1),
         Balance, NtkDelete, MiterIsConstant (- 1)] @
        MiterFraig 20 3 (- 1) 3 4 # [NtkDelete]) \<and>
   fits_sint64 8 \<and> fits_sint64 11 \<and>
   set [NtkDelete] \<subseteq> {NtkDelete} \<and>
   Abc_NtkMiterProve toy (toy_ntk 7) toy_params =
     Inr (- 1, \<lparr>pNtk = toy_ntk 5,
                pParams = toy_params\<lparr>nTotalBacktracksMade := 8, nTotalInspectsMade := 11\<rparr>,
                RetValue = Some (- 1),
                calls = [MiterSat 100 0 True (- 1) 5 7,
                         Rewrite, MiterIsConstant (- 1), Refactor, MiterIsConstant (- 1),
                         Balance, NtkDelete, MiterIsConstant (- 1),
                         MiterFraig 20 0 (- 1) 3 4, NtkDelete] @
                        MiterSat 1000000 0 False (- 1) 5 7 # []\<rparr>) \<and>
   unbilled (MiterSat 1000000 0 False (- 1) 5 7) \<and>
   returned (MiterSat 1000000 0 False (- 1) 5 7) = - 1 \<and>
   set ([] :: call list) \<subseteq> {NtkDelete}"
proof -
  let ?cs1 = "[MiterSat 100 10 True (- 1) 5 7,
       Rewrite, MiterIsConstant (- 1), Refactor, MiterIsConstant (- 1),
       Balance, NtkDelete, MiterIsConstant (- 1)]"
  let ?c = "MiterFraig 20 3 (- 1) 3 4"
  let ?p' = "toy_params_insps\<lparr>nTotalBacktracksMade := 8, nTotalInspectsMade := 11\<rparr>"
  have run: "Abc_NtkMiterProve toy (toy_ntk 7) toy_params_insps =
     Inr (- 1, \<lparr>pNtk = toy_ntk 5, pParams = ?p',
                RetValue = Some (- 1), calls = ?cs1 @ ?c # [NtkDelete]\<rparr>)"
    by (simp add: unfold_all unfold_toy toy_params_insps_def)
  have acc: "accounted ?c" by simp
  have lim: "limit_reached (foldl charge toy_params_insps (?cs1 @ [?c]))"
    by (simp add: unfold_toy toy_params_insps_def limit_reached_def plus_totals_def)
  note t = totals_accounting [OF run]
  from t have eq: "?p' = foldl charge toy_params_insps (?cs1 @ ?c # [NtkDelete])"
    by simp
  from t [THEN conjunct2, THEN conjunct1, rule_format, of ?cs1 ?c "[NtkDelete]"] acc
  have fits: "fits_sint64 8 \<and> fits_sint64 11"
    by (simp add: unfold_toy toy_params_insps_def plus_totals_def)
  from t [THEN conjunct2, THEN conjunct2, THEN conjunct1, rule_format, of ?cs1 ?c "[NtkDelete]"]
    acc lim
  have del: "set [NtkDelete] \<subseteq> {NtkDelete}"
    by simp
  let ?cs2 = "[MiterSat 100 0 True (- 1) 5 7,
       Rewrite, MiterIsConstant (- 1), Refactor, MiterIsConstant (- 1),
       Balance, NtkDelete, MiterIsConstant (- 1),
       MiterFraig 20 0 (- 1) 3 4, NtkDelete]"
  let ?d = "MiterSat 1000000 0 False (- 1) 5 7"
  have run': "Abc_NtkMiterProve toy (toy_ntk 7) toy_params =
     Inr (- 1, \<lparr>pNtk = toy_ntk 5,
                pParams = toy_params\<lparr>nTotalBacktracksMade := 8, nTotalInspectsMade := 11\<rparr>,
                RetValue = Some (- 1), calls = ?cs2 @ ?d # []\<rparr>)"
    by (simp add: unfold_all unfold_toy)
  have unb: "unbilled ?d" by simp
  from totals_accounting [OF run', THEN conjunct2, THEN conjunct2, THEN conjunct2, rule_format,
      of ?cs2 ?d "[]"] unb
  have ret: "returned ?d = - 1 \<and> set ([] :: call list) \<subseteq> {NtkDelete}"
    by simp
  from run acc lim eq fits del run' unb ret show ?thesis by blast
qed

end
